theory Spec2Isabelle
  imports Main "HOL-Library.Word" "HOL-Library.Sublist" "HOL-Library.Multiset"
begin

unbundle bit_operations_syntax

section \<open>The entity-extraction pipeline of spacytestwithcaching.py\<close>

text \<open>
  The development embeds \<^verbatim>\<open>src/spacytestwithcaching.py\<close>: the fingerprint
  \<^verbatim>\<open>get_cache_key\<close>, \<^verbatim>\<open>extract_entities_from_doc\<close> and the blocks of
  \<^verbatim>\<open>extract_all_entities_from_jsonl\<close> (loading the cache, reading the input, planning
  hits and misses, the annotation batch, the scatter-back, the cache update and the
  grouping by document).

  Conventions of the model.
  \<^item> A Python \<^verbatim>\<open>str\<close> is a \<^typ>\<open>string\<close> holding the bytes of its UTF-8 encoding, so
    \<^verbatim>\<open>text.encode()\<close> is the byte list itself.
  \<^item> A \<^verbatim>\<open>dict\<close> is a map; a Python \<^verbatim>\<open>set\<close>, and a list made by \<^verbatim>\<open>list(a_set)\<close>
    (whose element order Python does not fix), is a HOL set.
  \<^item> Every exception the code can raise is a value of \<open>error\<close>; the progress prints are
    left out, except the one that divides by the number of segments. Failures of the
    operating system (a full disk, a missing input file) are not modelled.
  \<^item> The output file holds one record per key of the per-document aggregate, and is
    written only when the function reaches its end; the model returns the aggregate.
  \<^item> spaCy's \<^verbatim>\<open>nlp.pipe\<close> and the content of the pickle file are parameters of the
    model: the annotator is any function from the list of texts to an error or a list of
    documents, and the file is absent, a pickled dictionary, or a file \<^verbatim>\<open>pickle.load\<close>
    cannot read.
\<close>

subsection \<open>MD5, the fingerprint (line 10-11)\<close>

type_synonym byte = "8 word"
type_synonym u32 = "32 word"

text \<open>The sine table of RFC 1321, \<open>floor (2^32 * abs (sin (i + 1)))\<close>, in four rows.\<close>

definition md5_K0 :: "u32 list" where
  "md5_K0 = [0xd76aa478, 0xe8c7b756, 0x242070db, 0xc1bdceee, 0xf57c0faf, 0x4787c62a,
             0xa8304613, 0xfd469501, 0x698098d8, 0x8b44f7af, 0xffff5bb1, 0x895cd7be,
             0x6b901122, 0xfd987193, 0xa679438e, 0x49b40821]"

definition md5_K1 :: "u32 list" where
  "md5_K1 = [0xf61e2562, 0xc040b340, 0x265e5a51, 0xe9b6c7aa, 0xd62f105d, 0x02441453,
             0xd8a1e681, 0xe7d3fbc8, 0x21e1cde6, 0xc33707d6, 0xf4d50d87, 0x455a14ed,
             0xa9e3e905, 0xfcefa3f8, 0x676f02d9, 0x8d2a4c8a]"

definition md5_K2 :: "u32 list" where
  "md5_K2 = [0xfffa3942, 0x8771f681, 0x6d9d6122, 0xfde5380c, 0xa4beea44, 0x4bdecfa9,
             0xf6bb4b60, 0xbebfbc70, 0x289b7ec6, 0xeaa127fa, 0xd4ef3085, 0x04881d05,
             0xd9d4d039, 0xe6db99e5, 0x1fa27cf8, 0xc4ac5665]"

definition md5_K3 :: "u32 list" where
  "md5_K3 = [0xf4292244, 0x432aff97, 0xab9423a7, 0xfc93a039, 0x655b59c3, 0x8f0ccc92,
             0xffeff47d, 0x85845dd1, 0x6fa87e4f, 0xfe2ce6e0, 0xa3014314, 0x4e0811a1,
             0xf7537e82, 0xbd3af235, 0x2ad7d2bb, 0xeb86d391]"

definition md5_K :: "u32 list" where
  "md5_K = md5_K0 @ md5_K1 @ md5_K2 @ md5_K3"

text \<open>The rotation amounts of the four rounds.\<close>

definition md5_s :: "nat list" where
  "md5_s = [7, 12, 17, 22, 7, 12, 17, 22, 7, 12, 17, 22, 7, 12, 17, 22,
            5, 9, 14, 20, 5, 9, 14, 20, 5, 9, 14, 20, 5, 9, 14, 20,
            4, 11, 16, 23, 4, 11, 16, 23, 4, 11, 16, 23, 4, 11, 16, 23,
            6, 10, 15, 21, 6, 10, 15, 21, 6, 10, 15, 21, 6, 10, 15, 21]"

text \<open>The \<open>k\<close> low bytes of a word, least significant first.\<close>

definition le_bytes :: "nat \<Rightarrow> 'a::len word \<Rightarrow> byte list" where
  "le_bytes k w = map (\<lambda>i. ucast (drop_bit (8 * i) w)) [0..<k]"

text \<open>
  Padding: the byte 0x80, zero bytes up to 56 modulo 64, then the length of the message
  in bits as a 64-bit little-endian number.
\<close>

definition md5_pad :: "byte list \<Rightarrow> byte list" where
  "md5_pad m = m @ [0x80] @ replicate ((119 - length m mod 64) mod 64) 0
                 @ le_bytes 8 (8 * (of_nat (length m) :: 64 word))"

fun le_words :: "byte list \<Rightarrow> u32 list" where
  "le_words (b0 # b1 # b2 # b3 # bs) =
     (ucast b0 + push_bit 8 (ucast b1) + push_bit 16 (ucast b2) + push_bit 24 (ucast b3))
       # le_words bs"
| "le_words _ = []"

type_synonym md5_state = "u32 \<times> u32 \<times> u32 \<times> u32"

fun md5_step :: "u32 list \<Rightarrow> md5_state \<Rightarrow> nat \<Rightarrow> md5_state" where
  "md5_step M (a, b, c, d) i =
     (let (f, g) =
            (if i < 16 then ((b AND c) OR (NOT b AND d), i)
             else if i < 32 then ((d AND b) OR (NOT d AND c), (5 * i + 1) mod 16)
             else if i < 48 then (b XOR c XOR d, (3 * i + 5) mod 16)
             else (c XOR (b OR NOT d), (7 * i) mod 16));
          f' = f + a + md5_K ! i + M ! g
      in (d, b + word_rotl (md5_s ! i) f', b, c))"

definition md5_block :: "md5_state \<Rightarrow> byte list \<Rightarrow> md5_state" where
  "md5_block st blk =
     (case (st, foldl (md5_step (le_words blk)) st [0..<64]) of
        ((a0, b0, c0, d0), (a, b, c, d)) \<Rightarrow> (a0 + a, b0 + b, c0 + c, d0 + d))"

fun md5_blocks :: "md5_state \<Rightarrow> byte list \<Rightarrow> nat \<Rightarrow> md5_state" where
  "md5_blocks st bs 0 = st"
| "md5_blocks st bs (Suc n) = md5_blocks (md5_block st (take 64 bs)) (drop 64 bs) n"

definition md5_digest :: "byte list \<Rightarrow> byte list" where
  "md5_digest m =
     (let p = md5_pad m in
      case md5_blocks (0x67452301, 0xefcdab89, 0x98badcfe, 0x10325476) p (length p div 64) of
        (a, b, c, d) \<Rightarrow> concat (map (le_bytes 4) [a, b, c, d]))"

definition hex_digit :: "nat \<Rightarrow> char" where
  "hex_digit n = ''0123456789abcdef'' ! n"

definition hexdigest :: "byte list \<Rightarrow> string" where
  "hexdigest bs =
     concat (map (\<lambda>b. [hex_digit (unat (drop_bit 4 b)), hex_digit (unat (b AND 15))]) bs)"

text \<open>\<^verbatim>\<open>hashlib.md5(text.encode()).hexdigest()\<close>\<close>

definition get_cache_key :: "string \<Rightarrow> string" where
  "get_cache_key txt = hexdigest (md5_digest (map of_char txt))"

subsection \<open>Data\<close>

text \<open>
  An entity of a spaCy document is its \<^verbatim>\<open>label_\<close> and its \<^verbatim>\<open>text\<close>; a document is
  the list \<^verbatim>\<open>doc.ents\<close>. The result for one segment maps each label to its entity
  strings, the cache maps fingerprints to such results, and the aggregate maps a document
  key \<^verbatim>\<open>(accession, path)\<close> to the entity strings of every label.
\<close>

type_synonym doc = "(string \<times> string) list"
type_synonym entities = "string \<rightharpoonup> string set"
type_synonym cache = "string \<rightharpoonup> entities"
type_synonym doc_entities = "(string \<times> string) \<rightharpoonup> entities"

record meta =
  accession :: string
  path :: string

text \<open>
  The exceptions of the code. \<open>UnpicklingError\<close> stands for whatever \<^verbatim>\<open>pickle.load\<close>
  raises on a file it cannot read (\<^verbatim>\<open>UnpicklingError\<close>, or \<^verbatim>\<open>EOFError\<close> on an empty or
  truncated file), \<open>AnnotatorError\<close> for what spaCy raises.
\<close>

datatype error =
    JSONDecodeError
  | KeyError string
  | UnpicklingError
  | ZeroDivisionError
  | IndexError
  | AttributeError
  | AnnotatorError string

text \<open>
  The cache file on disk: it does not exist, it holds the pickle of a dictionary, or it
  exists and \<^verbatim>\<open>pickle.load\<close> raises on it (an empty or truncated file, or other bytes).
\<close>

datatype cache_file = Absent | Pickled cache | Unreadable

text \<open>
  A line of the input file after \<^verbatim>\<open>json.loads\<close>: not JSON, or an object whose fields
  are strings.
\<close>

datatype json_line = NotJSON | Object "string \<rightharpoonup> string"

text \<open>
  The annotator stands for line 86-92, \<^verbatim>\<open>spacy.load\<close> and \<^verbatim>\<open>list(nlp.pipe(texts))\<close>: it
  raises or returns a list of documents.
\<close>

type_synonym annotator = "string list \<Rightarrow> error + doc list"

subsection \<open>extract\_entities\_from\_doc (line 13-20)\<close>

fun add_ent :: "entities \<Rightarrow> string \<times> string \<Rightarrow> entities" where
  "add_ent entities (label, txt) =
     (let entities' = (if entities label = None then entities(label \<mapsto> {}) else entities)
      in entities'(label \<mapsto> insert txt (case entities' label of None \<Rightarrow> {} | Some s \<Rightarrow> s)))"

definition extract_entities_from_doc :: "doc \<Rightarrow> entities" where
  "extract_entities_from_doc d = foldl add_ent Map.empty d"

subsection \<open>Loading the cache (line 24-27 and 109-113)\<close>

definition load_cache :: "cache_file \<Rightarrow> error + cache" where
  "load_cache file =
     (case file of
        Absent \<Rightarrow> Inr Map.empty
      | Pickled c \<Rightarrow> Inr c
      | Unreadable \<Rightarrow> Inl UnpicklingError)"

subsection \<open>Reading the input and splitting it into segments (line 35-48)\<close>

text \<open>
  The code points \<^verbatim>\<open>str.strip()\<close> removes, in UTF-8: U+0009 to U+000D, U+001C to U+0020,
  U+0085, U+00A0, U+1680, U+2000 to U+200A, U+2028, U+2029, U+202F, U+205F and U+3000.
\<close>

definition whitespace :: "string list" where
  "whitespace =
    [[CHR 0x09], [CHR 0x0A], [CHR 0x0B], [CHR 0x0C], [CHR 0x0D], [CHR 0x1C], [CHR 0x1D],
     [CHR 0x1E], [CHR 0x1F], [CHR 0x20], [CHR 0xC2, CHR 0x85], [CHR 0xC2, CHR 0xA0],
     [CHR 0xE1, CHR 0x9A, CHR 0x80], [CHR 0xE2, CHR 0x80, CHR 0x80],
     [CHR 0xE2, CHR 0x80, CHR 0x81], [CHR 0xE2, CHR 0x80, CHR 0x82],
     [CHR 0xE2, CHR 0x80, CHR 0x83], [CHR 0xE2, CHR 0x80, CHR 0x84],
     [CHR 0xE2, CHR 0x80, CHR 0x85], [CHR 0xE2, CHR 0x80, CHR 0x86],
     [CHR 0xE2, CHR 0x80, CHR 0x87], [CHR 0xE2, CHR 0x80, CHR 0x88],
     [CHR 0xE2, CHR 0x80, CHR 0x89], [CHR 0xE2, CHR 0x80, CHR 0x8A],
     [CHR 0xE2, CHR 0x80, CHR 0xA8], [CHR 0xE2, CHR 0x80, CHR 0xA9],
     [CHR 0xE2, CHR 0x80, CHR 0xAF], [CHR 0xE2, CHR 0x81, CHR 0x9F],
     [CHR 0xE3, CHR 0x80, CHR 0x80]]"

text \<open>Dropping, from the left, every leading occurrence of one of the words \<open>ws\<close>.\<close>

fun drop_leading :: "string list \<Rightarrow> string \<Rightarrow> string" where
  "drop_leading ws [] = []"
| "drop_leading ws (c # cs) =
     (case find (\<lambda>w. prefix w (c # cs)) ws of
        None \<Rightarrow> c # cs
      | Some w \<Rightarrow> drop_leading ws (drop (length w - 1) cs))"

definition strip :: "string \<Rightarrow> string" where
  "strip s = rev (drop_leading (map rev whitespace) (rev (drop_leading whitespace s)))"

text \<open>\<^verbatim>\<open>s.split('\n\n')\<close>: cut at every occurrence of two line feeds, from the left.\<close>

fun split_acc :: "string \<Rightarrow> string \<Rightarrow> string list" where
  "split_acc acc (c # d # cs) =
     (if c = CHR 0x0A \<and> d = CHR 0x0A then rev acc # split_acc [] cs
      else split_acc (c # acc) (d # cs))"
| "split_acc acc [c] = [rev (c # acc)]"
| "split_acc acc [] = [rev acc]"

definition split_paragraphs :: "string \<Rightarrow> string list" where
  "split_paragraphs s = split_acc [] s"

text \<open>
  One line of the input: \<^verbatim>\<open>data['text']\<close> is read first; \<^verbatim>\<open>data['accession']\<close> and
  \<^verbatim>\<open>data['path']\<close> are read once for every segment of the line, so only when there is
  one.
\<close>

definition segment_meta :: "(string \<rightharpoonup> string) \<Rightarrow> error + meta" where
  "segment_meta data =
     (case data ''accession'' of
        None \<Rightarrow> Inl (KeyError ''accession'')
      | Some a \<Rightarrow>
          (case data ''path'' of
             None \<Rightarrow> Inl (KeyError ''path'')
           | Some p \<Rightarrow> Inr \<lparr>accession = a, path = p\<rparr>))"

definition read_line :: "json_line \<Rightarrow> error + (string list \<times> meta list)" where
  "read_line l =
     (case l of
        NotJSON \<Rightarrow> Inl JSONDecodeError
      | Object data \<Rightarrow>
          (case data ''text'' of
             None \<Rightarrow> Inl (KeyError ''text'')
           | Some t \<Rightarrow>
               (let text_segments = filter (\<lambda>p. p \<noteq> []) (map strip (split_paragraphs t))
                in if text_segments = [] then Inr ([], [])
                   else (case segment_meta data of
                           Inl e \<Rightarrow> Inl e
                         | Inr m \<Rightarrow> Inr (text_segments, map (\<lambda>_. m) text_segments)))))"

fun read_segments :: "json_line list \<Rightarrow> string list \<times> meta list \<Rightarrow> error + (string list \<times> meta list)" where
  "read_segments [] acc = Inr acc"
| "read_segments (l # ls) (all_text, text_metadata) =
     (case read_line l of
        Inl e \<Rightarrow> Inl e
      | Inr (segs, metas) \<Rightarrow> read_segments ls (all_text @ segs, text_metadata @ metas))"

subsection \<open>Planning: cache hits and misses (line 56-74)\<close>

record plan =
  texts_to_process :: "string list"
  text_indices :: "nat list"
  cached_entities :: "entities option list"
  cache_hits :: nat

fun plan_loop :: "cache \<Rightarrow> nat \<Rightarrow> string list \<Rightarrow> plan \<Rightarrow> plan" where
  "plan_loop cache i [] p = p"
| "plan_loop cache i (txt # rest) p =
     plan_loop cache (Suc i) rest
       (case cache (get_cache_key txt) of
          Some v \<Rightarrow>
            p\<lparr>cached_entities := cached_entities p @ [Some v], cache_hits := cache_hits p + 1\<rparr>
        | None \<Rightarrow>
            p\<lparr>texts_to_process := texts_to_process p @ [txt],
              text_indices := text_indices p @ [i],
              cached_entities := cached_entities p @ [None]\<rparr>)"

definition plan_segments :: "cache \<Rightarrow> string list \<Rightarrow> plan" where
  "plan_segments cache all_text =
     plan_loop cache 0 all_text
       \<lparr>texts_to_process = [], text_indices = [], cached_entities = [], cache_hits = 0\<rparr>"

subsection \<open>Scattering the annotator's results back (line 96-103)\<close>

text \<open>
  The loop over \<^verbatim>\<open>enumerate(processed_docs)\<close>; its state is \<^verbatim>\<open>cached_entities\<close> and
  \<^verbatim>\<open>new_cache_entries\<close>. An index out of range raises \<^verbatim>\<open>IndexError\<close>.
\<close>

fun scatter_loop ::
  "string list \<Rightarrow> nat list \<Rightarrow> nat \<Rightarrow> doc list \<Rightarrow> entities option list \<times> cache
     \<Rightarrow> error + (entities option list \<times> cache)" where
  "scatter_loop texts idxs i [] st = Inr st"
| "scatter_loop texts idxs i (d # ds) (ce, new_cache_entries) =
     (if length idxs \<le> i then Inl IndexError
      else let original_idx = idxs ! i; entities = extract_entities_from_doc d
           in if length ce \<le> original_idx then Inl IndexError
              else if length texts \<le> i then Inl IndexError
              else scatter_loop texts idxs (Suc i) ds
                     (ce[original_idx := Some entities],
                      new_cache_entries(get_cache_key (texts ! i) \<mapsto> entities)))"

definition scatter :: "plan \<Rightarrow> doc list \<Rightarrow> error + (entities option list \<times> cache)" where
  "scatter p processed_docs =
     scatter_loop (texts_to_process p) (text_indices p) 0 processed_docs
       (cached_entities p, Map.empty)"

subsection \<open>Grouping the entities by document (line 129-142)\<close>

text \<open>
  One turn of the loop over \<^verbatim>\<open>zip(cached_entities, text_metadata)\<close>. A slot that still
  holds the placeholder \<^verbatim>\<open>None\<close> raises \<^verbatim>\<open>AttributeError\<close> at \<^verbatim>\<open>entities.items()\<close>.
  The two inner loops add every entity string of every label of the segment to the
  document's set for that label, creating the set when the label is new.
\<close>

definition merge_entities :: "entities \<Rightarrow> entities \<Rightarrow> entities" where
  "merge_entities by_type entities =
     (\<lambda>entity_type.
        case entities entity_type of
          None \<Rightarrow> by_type entity_type
        | Some entity_list \<Rightarrow>
            Some ((case by_type entity_type of None \<Rightarrow> {} | Some s \<Rightarrow> s) \<union> entity_list))"

fun group_step :: "doc_entities \<Rightarrow> entities option \<times> meta \<Rightarrow> error + doc_entities" where
  "group_step doc_ents (None, m) = Inl AttributeError"
| "group_step doc_ents (Some entities, m) =
     (let key = (accession m, path m);
          doc_ents' = (if doc_ents key = None then doc_ents(key \<mapsto> Map.empty) else doc_ents)
      in Inr (doc_ents'(key \<mapsto>
                merge_entities (case doc_ents' key of None \<Rightarrow> Map.empty | Some t \<Rightarrow> t) entities)))"

fun group_loop :: "doc_entities \<Rightarrow> (entities option \<times> meta) list \<Rightarrow> error + doc_entities" where
  "group_loop doc_ents [] = Inr doc_ents"
| "group_loop doc_ents (x # xs) =
     (case group_step doc_ents x of
        Inl e \<Rightarrow> Inl e
      | Inr doc_ents' \<Rightarrow> group_loop doc_ents' xs)"

definition group_entities :: "entities option list \<Rightarrow> meta list \<Rightarrow> error + doc_entities" where
  "group_entities ce text_metadata = group_loop Map.empty (zip ce text_metadata)"

subsection \<open>The whole function (line 22-165)\<close>

text \<open>
  What one call does: \<open>outcome\<close> is the exception it raises or the per-document
  aggregate it writes to the output file (one record per document key); \<open>written\<close> is
  the dictionary it dumps into the cache file, \<open>None\<close> when it never opens the file for
  writing; \<open>pipe_calls\<close> lists the batches it hands to the annotator.

  The cache file is read twice, at line 25-27 and again at line 109-113 just before the
  write; \<open>file0\<close> and \<open>file1\<close> are its contents at these two moments (the same when
  nothing else writes the file in between).
\<close>

record result =
  outcome :: "error + doc_entities"
  written :: "cache option"
  pipe_calls :: "string list list"

definition extract_all_entities_from_jsonl ::
  "annotator \<Rightarrow> json_line list \<Rightarrow> cache_file \<Rightarrow> cache_file \<Rightarrow> result" where
  "extract_all_entities_from_jsonl nlp_pipe input_file file0 file1 =
     (case load_cache file0 of
        Inl e \<Rightarrow> \<lparr>outcome = Inl e, written = None, pipe_calls = []\<rparr>
      | Inr cache \<Rightarrow>
     (case read_segments input_file ([], []) of
        Inl e \<Rightarrow> \<lparr>outcome = Inl e, written = None, pipe_calls = []\<rparr>
      | Inr (all_text, text_metadata) \<Rightarrow>
          (let p = plan_segments cache all_text
           in if length all_text = 0
              then \<lparr>outcome = Inl ZeroDivisionError, written = None, pipe_calls = []\<rparr>
              else if texts_to_process p \<noteq> []
              then (case nlp_pipe (texts_to_process p) of
                      Inl e \<Rightarrow>
                        \<lparr>outcome = Inl e, written = None, pipe_calls = [texts_to_process p]\<rparr>
                    | Inr processed_docs \<Rightarrow>
                        (case scatter p processed_docs of
                           Inl e \<Rightarrow>
                             \<lparr>outcome = Inl e, written = None,
                              pipe_calls = [texts_to_process p]\<rparr>
                         | Inr (ce, new_cache_entries) \<Rightarrow>
                             (case load_cache file1 of
                                Inl e \<Rightarrow>
                                  \<lparr>outcome = Inl e, written = None,
                                   pipe_calls = [texts_to_process p]\<rparr>
                              | Inr cache' \<Rightarrow>
                                  \<lparr>outcome = group_entities ce text_metadata,
                                   written = Some (cache' ++ new_cache_entries),
                                   pipe_calls = [texts_to_process p]\<rparr>)))
              else \<lparr>outcome = group_entities (cached_entities p) text_metadata,
                    written = None, pipe_calls = []\<rparr>)))"

text \<open>
  The contents the cache file goes through while line 119-120 run:
  \<^verbatim>\<open>open(cache_file, 'wb')\<close> truncates the file in place, and it holds the whole pickle
  only once \<^verbatim>\<open>pickle.dump\<close> and the close have completed. A process killed in between
  leaves the file at one of these contents.
\<close>

definition write_states :: "cache \<Rightarrow> cache_file list" where
  "write_states c = [Unreadable, Pickled c]"

definition cache_file_states :: "result \<Rightarrow> cache_file \<Rightarrow> cache_file list" where
  "cache_file_states r file1 =
     file1 # (case written r of None \<Rightarrow> [] | Some c \<Rightarrow> write_states c)"

text \<open>A run that nothing interferes with, and the cache file it leaves behind.\<close>

definition run :: "annotator \<Rightarrow> json_line list \<Rightarrow> cache_file \<Rightarrow> result \<times> cache_file" where
  "run nlp_pipe input_file file =
     (let r = extract_all_entities_from_jsonl nlp_pipe input_file file file
      in (r, last (cache_file_states r file)))"

subsection \<open>What the aggregate should be\<close>

text \<open>
  The aggregate in the words of the specification: a document key has an entry when some
  segment of that document was seen, a label is present when some result of the document
  has it, and its entity strings are those of all these results together. The starting
  aggregate \<open>de\<close> is counted like one more result per document. The definition talks
  about the set \<open>S\<close> of (result, metadata) pairs only, not about their order or number.
\<close>

definition doc_key :: "meta \<Rightarrow> string \<times> string" where
  "doc_key m = (accession m, path m)"

definition seen :: "doc_entities \<Rightarrow> (entities option \<times> meta) set \<Rightarrow> string \<times> string \<Rightarrow> bool" where
  "seen de S k \<longleftrightarrow> de k \<noteq> None \<or> (\<exists>e m. (Some e, m) \<in> S \<and> doc_key m = k)"

definition has_label ::
  "doc_entities \<Rightarrow> (entities option \<times> meta) set \<Rightarrow> string \<times> string \<Rightarrow> string \<Rightarrow> bool" where
  "has_label de S k ty \<longleftrightarrow>
     (\<exists>t s. de k = Some t \<and> t ty = Some s) \<or>
     (\<exists>e m s. (Some e, m) \<in> S \<and> doc_key m = k \<and> e ty = Some s)"

definition members ::
  "doc_entities \<Rightarrow> (entities option \<times> meta) set \<Rightarrow> string \<times> string \<Rightarrow> string \<Rightarrow> string set" where
  "members de S k ty =
     {x. \<exists>t s. de k = Some t \<and> t ty = Some s \<and> x \<in> s} \<union>
     {x. \<exists>e m s. (Some e, m) \<in> S \<and> doc_key m = k \<and> e ty = Some s \<and> x \<in> s}"

definition aggregate_spec :: "doc_entities \<Rightarrow> (entities option \<times> meta) set \<Rightarrow> doc_entities" where
  "aggregate_spec de S k =
     (if seen de S k
      then Some (\<lambda>ty. if has_label de S k ty then Some (members de S k ty) else None)
      else None)"

subsection \<open>Inputs for the worked examples\<close>

text \<open>
  The scenario of the specification: three records with one segment each, and an
  annotator that finds the person Bob in "hello world" and nothing elsewhere.
\<close>

definition example_nlp :: "string \<Rightarrow> doc" where
  "example_nlp t = (if t = ''hello world'' then [(''PERSON'', ''Bob'')] else [])"

definition example_pipe :: annotator where
  "example_pipe ts = Inr (map example_nlp ts)"

definition segment_record :: "string \<Rightarrow> string \<Rightarrow> string \<Rightarrow> json_line" where
  "segment_record a p t = Object [''accession'' \<mapsto> a, ''path'' \<mapsto> p, ''text'' \<mapsto> t]"

definition example_input :: "json_line list" where
  "example_input =
     [segment_record ''A'' ''x'' ''hello world'',
      segment_record ''A'' ''y'' ''hello world'',
      segment_record ''B'' ''z'' ''goodbye'']"

definition failing_pipe :: annotator where
  "failing_pipe ts = Inl (AnnotatorError ''out of memory'')"

definition example_docs :: "doc list" where
  "example_docs = [[(''PERSON'', ''Bob'')], []]"

definition example_cache :: cache where
  "example_cache = [''69faab6268350295550de7d587bc323d'' \<mapsto> Map.empty]"

definition other_cache :: cache where
  "other_cache = [''0cc175b9c0f1b6a831c399e269772661'' \<mapsto> [''ORG'' \<mapsto> {''Acme''}]]"

definition example_entries :: cache where
  "example_entries =
     [''5eb63bbbe01eeed093cb22bb8f5acdc3'' \<mapsto> [''PERSON'' \<mapsto> {''Bob''}],
      ''69faab6268350295550de7d587bc323d'' \<mapsto> Map.empty]"

definition hello_entries :: cache where
  "hello_entries = [''5eb63bbbe01eeed093cb22bb8f5acdc3'' \<mapsto> [''PERSON'' \<mapsto> {''Bob''}]]"

text \<open>
  A published pair of different ASCII texts with the same MD5 digest, one letter apart,
  and an annotator that tells them apart.
\<close>

definition collide_a :: string where
  "collide_a = ''TEXTCOLLBYfGiJUETHQ4hAcKSMd5zYpgqf1YRDhkmxHkhPWptrkoyz28wnI9V0aHeAuaKnak''"

definition collide_b :: string where
  "collide_b = ''TEXTCOLLBYfGiJUETHQ4hEcKSMd5zYpgqf1YRDhkmxHkhPWptrkoyz28wnI9V0aHeAuaKnak''"

definition collide_nlp :: "string \<Rightarrow> doc" where
  "collide_nlp t = (if t = collide_a then [(''PERSON'', ''Bob'')] else [])"

definition collide_pipe :: annotator where
  "collide_pipe ts = Inr (map collide_nlp ts)"

definition collide_input :: "json_line list" where
  "collide_input = [segment_record ''A'' ''x'' collide_a, segment_record ''A'' ''x'' collide_b]"

section \<open>Properties\<close>

subsection \<open>The plan in closed form\<close>

lemma plan_loop_texts:
  "texts_to_process (plan_loop cache i ts p) =
     texts_to_process p @ filter (\<lambda>t. cache (get_cache_key t) = None) ts"
  by (induction ts arbitrary: i p) (auto split: option.splits)

lemma plan_loop_cached:
  "cached_entities (plan_loop cache i ts p) =
     cached_entities p @ map (\<lambda>t. cache (get_cache_key t)) ts"
  by (induction ts arbitrary: i p) (auto split: option.splits)

lemma plan_loop_hits:
  "cache_hits (plan_loop cache i ts p) =
     cache_hits p + length (filter (\<lambda>t. cache (get_cache_key t) \<noteq> None) ts)"
  by (induction ts arbitrary: i p) (auto split: option.splits)

lemma upt_0_Suc: "[0..<Suc n] = 0 # map Suc [0..<n]"
  by (simp add: upt_conv_Cons map_Suc_upt del: upt_Suc)

lemma plan_loop_indices:
  "text_indices (plan_loop cache i ts p) =
     text_indices p @
     map (\<lambda>j. i + j) (filter (\<lambda>j. cache (get_cache_key (ts ! j)) = None) [0..<length ts])"
proof (induction ts arbitrary: i p)
  case Nil
  then show ?case by simp
next
  case (Cons t rest)
  show ?case
    by (simp add: Cons.IH upt_0_Suc filter_map comp_def del: upt_Suc split: option.splits)
qed

lemma plan_texts:
  "texts_to_process (plan_segments cache all_text) =
     filter (\<lambda>t. cache (get_cache_key t) = None) all_text"
  by (simp add: plan_segments_def plan_loop_texts)

lemma plan_cached:
  "cached_entities (plan_segments cache all_text) = map (\<lambda>t. cache (get_cache_key t)) all_text"
  by (simp add: plan_segments_def plan_loop_cached)

lemma plan_hits:
  "cache_hits (plan_segments cache all_text) =
     length (filter (\<lambda>t. cache (get_cache_key t) \<noteq> None) all_text)"
  by (simp add: plan_segments_def plan_loop_hits)

lemma plan_indices:
  "text_indices (plan_segments cache all_text) =
     filter (\<lambda>j. cache (get_cache_key (all_text ! j)) = None) [0..<length all_text]"
  by (simp add: plan_segments_def plan_loop_indices)

lemma filter_nth_upt: "map ((!) xs) (filter (\<lambda>j. P (xs ! j)) [0..<length xs]) = filter P xs"
proof -
  have "filter P xs = filter P (map ((!) xs) [0..<length xs])"
    by (simp add: map_nth)
  also have "\<dots> = map ((!) xs) (filter (P \<circ> (!) xs) [0..<length xs])"
    by (simp only: filter_map)
  finally show ?thesis by (simp add: comp_def)
qed

lemma plan_texts_indices:
  "texts_to_process (plan_segments cache all_text) =
     map ((!) all_text) (text_indices (plan_segments cache all_text))"
  using filter_nth_upt [of all_text "\<lambda>t. cache (get_cache_key t) = None"]
  by (simp add: plan_texts plan_indices)

lemma plan_indices_distinct: "distinct (text_indices (plan_segments cache all_text))"
  by (simp add: plan_indices)

lemma plan_indices_set:
  "set (text_indices (plan_segments cache all_text)) =
     {i. i < length all_text \<and> cache (get_cache_key (all_text ! i)) = None}"
  by (auto simp: plan_indices)

lemma plan_lengths:
  "length (texts_to_process (plan_segments cache all_text)) =
     length (text_indices (plan_segments cache all_text))"
  by (simp add: plan_texts_indices)

lemma range_Suc_split: "{i..<i + Suc n} = insert i {Suc i..<Suc i + n}"
  by auto

lemma scatter_loop_ok:
  assumes "distinct idxs" and "\<forall>x\<in>set idxs. x < length ce"
    and "length texts = length idxs" and "i + length ds \<le> length idxs"
  shows "\<exists>ce' new'. scatter_loop texts idxs i ds (ce, new) = Inr (ce', new') \<and>
           length ce' = length ce \<and>
           (\<forall>j<length ds. ce' ! (idxs ! (i + j)) = Some (extract_entities_from_doc (ds ! j))) \<and>
           (\<forall>k. k \<notin> (!) idxs ` {i..<i + length ds} \<longrightarrow> ce' ! k = ce ! k) \<and>
           dom new' = dom new \<union> (\<lambda>j. get_cache_key (texts ! j)) ` {i..<i + length ds}"
  using assms
proof (induction ds arbitrary: i ce new)
  case Nil
  then show ?case by simp
next
  case (Cons d ds)
  let ?e = "extract_entities_from_doc d"
  let ?ce1 = "ce[idxs ! i := Some ?e]"
  let ?new1 = "new(get_cache_key (texts ! i) \<mapsto> ?e)"
  from Cons.prems have i: "i < length idxs" and oi: "idxs ! i < length ce"
    by auto
  have step: "scatter_loop texts idxs i (d # ds) (ce, new)
                = scatter_loop texts idxs (Suc i) ds (?ce1, ?new1)"
    using i oi Cons.prems(3) by (simp add: Let_def)
  have "\<exists>ce' new'. scatter_loop texts idxs (Suc i) ds (?ce1, ?new1) = Inr (ce', new') \<and>
           length ce' = length ?ce1 \<and>
           (\<forall>j<length ds. ce' ! (idxs ! (Suc i + j)) = Some (extract_entities_from_doc (ds ! j))) \<and>
           (\<forall>k. k \<notin> (!) idxs ` {Suc i..<Suc i + length ds} \<longrightarrow> ce' ! k = ?ce1 ! k) \<and>
           dom new' = dom ?new1 \<union> (\<lambda>j. get_cache_key (texts ! j)) ` {Suc i..<Suc i + length ds}"
    using Cons.prems by (intro Cons.IH) auto
  then obtain ce' new' where
    r: "scatter_loop texts idxs (Suc i) ds (?ce1, ?new1) = Inr (ce', new')"
    and len: "length ce' = length ce"
    and later: "\<forall>j<length ds. ce' ! (idxs ! (Suc i + j)) = Some (extract_entities_from_doc (ds ! j))"
    and other: "\<forall>k. k \<notin> (!) idxs ` {Suc i..<Suc i + length ds} \<longrightarrow> ce' ! k = ?ce1 ! k"
    and dm: "dom new' = dom ?new1 \<union> (\<lambda>j. get_cache_key (texts ! j)) ` {Suc i..<Suc i + length ds}"
    by auto
  have notlater: "idxs ! i \<notin> (!) idxs ` {Suc i..<Suc i + length ds}"
  proof
    assume "idxs ! i \<in> (!) idxs ` {Suc i..<Suc i + length ds}"
    then obtain j where j: "Suc i \<le> j" "j < Suc i + length ds" "idxs ! i = idxs ! j"
      by auto
    with Cons.prems(1,4) i have "i = j"
      by (simp add: nth_eq_iff_index_eq)
    with j show False by simp
  qed
  have here: "ce' ! (idxs ! i) = Some ?e"
    using other notlater oi by simp
  have 1: "\<forall>j<length (d # ds). ce' ! (idxs ! (i + j)) = Some (extract_entities_from_doc ((d # ds) ! j))"
  proof (intro allI impI)
    fix j assume "j < length (d # ds)"
    then show "ce' ! (idxs ! (i + j)) = Some (extract_entities_from_doc ((d # ds) ! j))"
      using here later by (cases j) auto
  qed
  have 2: "\<forall>k. k \<notin> (!) idxs ` {i..<i + length (d # ds)} \<longrightarrow> ce' ! k = ce ! k"
  proof (intro allI impI)
    fix k assume k: "k \<notin> (!) idxs ` {i..<i + length (d # ds)}"
    then have "k \<noteq> idxs ! i" and "k \<notin> (!) idxs ` {Suc i..<Suc i + length ds}"
      by (auto simp: range_Suc_split)
    then show "ce' ! k = ce ! k"
      using other by simp
  qed
  have rs: "{i..<i + length (d # ds)} = insert i {Suc i..<Suc i + length ds}"
    by auto
  have 3: "dom new' = dom new \<union> (\<lambda>j. get_cache_key (texts ! j)) ` {i..<i + length (d # ds)}"
    unfolding rs using dm by auto
  show ?case
    using step r len 1 2 3 by simp
qed

lemma scatter_loop_Inr_length:
  "scatter_loop texts idxs i ds st = Inr r \<Longrightarrow> i \<le> length idxs \<Longrightarrow> i + length ds \<le> length idxs"
proof (induction ds arbitrary: i st)
  case Nil
  then show ?case by simp
next
  case (Cons d ds)
  obtain ce new where st: "st = (ce, new)" by (cases st)
  from Cons.prems have "i < length idxs"
    by (auto simp: st split: if_splits)
  moreover from Cons.prems obtain st' where "scatter_loop texts idxs (Suc i) ds st' = Inr r"
    by (auto simp: st Let_def split: if_splits)
  ultimately have "Suc i + length ds \<le> length idxs"
    by (intro Cons.IH) auto
  then show ?case by simp
qed

lemma scatter_plan:
  assumes "length docs \<le> length (texts_to_process (plan_segments cache all_text))"
  shows "\<exists>ce new. scatter (plan_segments cache all_text) docs = Inr (ce, new) \<and>
           length ce = length all_text \<and>
           (\<forall>j<length docs. ce ! (text_indices (plan_segments cache all_text) ! j)
                                 = Some (extract_entities_from_doc (docs ! j))) \<and>
           (\<forall>k. k \<notin> (!) (text_indices (plan_segments cache all_text)) ` {0..<length docs}
                 \<longrightarrow> ce ! k = cached_entities (plan_segments cache all_text) ! k) \<and>
           dom new = (\<lambda>j. get_cache_key (texts_to_process (plan_segments cache all_text) ! j))
                        ` {0..<length docs}"
proof -
  let ?p = "plan_segments cache all_text"
  have "\<forall>x\<in>set (text_indices ?p). x < length (cached_entities ?p)"
    by (simp add: plan_indices_set plan_cached)
  with assms scatter_loop_ok [of "text_indices ?p" "cached_entities ?p" "texts_to_process ?p" 0 docs Map.empty]
  show ?thesis
    by (simp add: scatter_def plan_indices_distinct plan_lengths plan_cached)
qed

lemma scatter_loop_new_values:
  assumes "\<forall>a\<in>set texts. \<forall>b\<in>set texts. get_cache_key a = get_cache_key b \<longrightarrow> f a = f b"
    and "i + length ds \<le> length texts"
    and "\<forall>j<length ds. extract_entities_from_doc (ds ! j) = f (texts ! (i + j))"
    and "scatter_loop texts idxs i ds (ce, new) = Inr (ce', new')"
  shows "(\<forall>j<length ds. new' (get_cache_key (texts ! (i + j))) = Some (f (texts ! (i + j)))) \<and>
         (\<forall>k. k \<notin> (\<lambda>j. get_cache_key (texts ! j)) ` {i..<i + length ds} \<longrightarrow> new' k = new k)"
  using assms(2-)
proof (induction ds arbitrary: i ce new)
  case Nil
  then show ?case by simp
next
  case (Cons d ds)
  let ?e = "extract_entities_from_doc d"
  let ?k0 = "get_cache_key (texts ! i)"
  have e: "?e = f (texts ! i)"
    using Cons.prems(2) by force
  from Cons.prems(3) obtain ce1 where
    r: "scatter_loop texts idxs (Suc i) ds (ce1, new(?k0 \<mapsto> ?e)) = Inr (ce', new')"
    by (auto simp: Let_def split: if_splits)
  have ds': "\<forall>j<length ds. extract_entities_from_doc (ds ! j) = f (texts ! (Suc i + j))"
    using Cons.prems(2) by fastforce
  have len': "Suc i + length ds \<le> length texts"
    using Cons.prems(1) by simp
  from Cons.IH [OF len' ds' r]
  have later: "\<forall>j<length ds. new' (get_cache_key (texts ! (Suc i + j))) = Some (f (texts ! (Suc i + j)))"
    and other: "\<forall>k. k \<notin> (\<lambda>j. get_cache_key (texts ! j)) ` {Suc i..<Suc i + length ds}
                  \<longrightarrow> new' k = (new(?k0 \<mapsto> ?e)) k"
    by blast+
  have rs: "{i..<i + length (d # ds)} = insert i {Suc i..<Suc i + length ds}"
    by auto
  have here: "new' ?k0 = Some (f (texts ! i))"
  proof (cases "?k0 \<in> (\<lambda>j. get_cache_key (texts ! j)) ` {Suc i..<Suc i + length ds}")
    case True
    then obtain j where j: "j < length ds" "?k0 = get_cache_key (texts ! (Suc i + j))"
      by (auto simp: image_iff) (metis add_Suc le_add_diff_inverse less_diff_conv2 add.commute)
    have "texts ! i \<in> set texts" "texts ! (Suc i + j) \<in> set texts"
      using Cons.prems(1) j(1) by auto
    with assms(1) j(2) have "f (texts ! i) = f (texts ! (Suc i + j))"
      by blast
    with later j show ?thesis by simp
  next
    case False
    with other e show ?thesis by simp
  qed
  have 1: "\<forall>j<length (d # ds). new' (get_cache_key (texts ! (i + j))) = Some (f (texts ! (i + j)))"
  proof (intro allI impI)
    fix j assume "j < length (d # ds)"
    then show "new' (get_cache_key (texts ! (i + j))) = Some (f (texts ! (i + j)))"
      using here later by (cases j) auto
  qed
  have 2: "\<forall>k. k \<notin> (\<lambda>j. get_cache_key (texts ! j)) ` {i..<i + length (d # ds)} \<longrightarrow> new' k = new k"
    unfolding rs using other by auto
  from 1 2 show ?case by blast
qed


subsection \<open>Fingerprints and segments of the examples\<close>

lemma md5_hello_world: "get_cache_key ''hello world'' = ''5eb63bbbe01eeed093cb22bb8f5acdc3''"
  by code_simp

lemma md5_goodbye: "get_cache_key ''goodbye'' = ''69faab6268350295550de7d587bc323d''"
  by code_simp

lemma strip_hello: "strip ''hello world'' = ''hello world''"
  by (simp add: strip_def whitespace_def)

lemma strip_goodbye: "strip ''goodbye'' = ''goodbye''"
  by (simp add: strip_def whitespace_def)

lemma split_hello: "split_paragraphs ''hello world'' = [''hello world'']"
  by (simp add: split_paragraphs_def)

lemma split_goodbye: "split_paragraphs ''goodbye'' = [''goodbye'']"
  by (simp add: split_paragraphs_def)

lemma read_example:
  "read_segments example_input ([], []) =
     Inr ([''hello world'', ''hello world'', ''goodbye''],
          [\<lparr>accession = ''A'', path = ''x''\<rparr>, \<lparr>accession = ''A'', path = ''y''\<rparr>,
           \<lparr>accession = ''B'', path = ''z''\<rparr>])"
  by (simp add: example_input_def segment_record_def read_line_def segment_meta_def
        strip_hello strip_goodbye split_hello split_goodbye)


subsection \<open>The run unfolded\<close>

lemma merge_entities_empty: "merge_entities Map.empty e = e"
  by (rule ext) (simp add: merge_entities_def split: option.splits)

lemma extract_example_hello:
  "extract_entities_from_doc (example_nlp ''hello world'') = [''PERSON'' \<mapsto> {''Bob''}]"
  by (simp add: extract_entities_from_doc_def example_nlp_def)

lemma extract_example_goodbye:
  "extract_entities_from_doc (example_nlp ''goodbye'') = Map.empty"
  by (simp add: extract_entities_from_doc_def example_nlp_def)

lemma example_run_reload:
  assumes "load_cache file1 = Inr cache1"
  shows "extract_all_entities_from_jsonl example_pipe example_input Absent file1 =
     \<lparr>outcome = Inr [(''A'', ''x'') \<mapsto> [''PERSON'' \<mapsto> {''Bob''}],
                      (''A'', ''y'') \<mapsto> [''PERSON'' \<mapsto> {''Bob''}],
                      (''B'', ''z'') \<mapsto> Map.empty],
      written = Some (cache1 ++
                      [''5eb63bbbe01eeed093cb22bb8f5acdc3'' \<mapsto> [''PERSON'' \<mapsto> {''Bob''}],
                       ''69faab6268350295550de7d587bc323d'' \<mapsto> Map.empty]),
      pipe_calls = [[''hello world'', ''hello world'', ''goodbye'']]\<rparr>"
  using assms
  by (simp add: extract_all_entities_from_jsonl_def load_cache_def read_example
        plan_segments_def example_pipe_def scatter_def group_entities_def
        extract_example_hello extract_example_goodbye md5_hello_world md5_goodbye
        merge_entities_empty Let_def)

lemma example_run_failing:
  "extract_all_entities_from_jsonl failing_pipe example_input Absent file1 =
     \<lparr>outcome = Inl (AnnotatorError ''out of memory''), written = None,
      pipe_calls = [[''hello world'', ''hello world'', ''goodbye'']]\<rparr>"
  by (simp add: extract_all_entities_from_jsonl_def load_cache_def read_example
        plan_segments_def failing_pipe_def Let_def)

lemma written_SomeD:
  assumes "written (extract_all_entities_from_jsonl nlp_pipe input_file file0 file1) = Some c"
  shows "\<exists>cache all_text tm docs ce new cache1.
           load_cache file0 = Inr cache \<and>
           read_segments input_file ([], []) = Inr (all_text, tm) \<and>
           all_text \<noteq> [] \<and>
           texts_to_process (plan_segments cache all_text) \<noteq> [] \<and>
           nlp_pipe (texts_to_process (plan_segments cache all_text)) = Inr docs \<and>
           scatter (plan_segments cache all_text) docs = Inr (ce, new) \<and>
           load_cache file1 = Inr cache1 \<and>
           c = cache1 ++ new \<and>
           extract_all_entities_from_jsonl nlp_pipe input_file file0 file1 =
             \<lparr>outcome = group_entities ce tm, written = Some c,
              pipe_calls = [texts_to_process (plan_segments cache all_text)]\<rparr>"
  using assms
  by (auto simp: extract_all_entities_from_jsonl_def Let_def
           split: sum.splits prod.splits if_splits)

lemma pipe_callsD:
  assumes "pipe_calls (extract_all_entities_from_jsonl nlp_pipe input_file file0 file1) = ts # tss"
  shows "tss = [] \<and> ts \<noteq> [] \<and>
         (\<exists>cache all_text tm.
           load_cache file0 = Inr cache \<and>
           read_segments input_file ([], []) = Inr (all_text, tm) \<and>
           all_text \<noteq> [] \<and>
           ts = texts_to_process (plan_segments cache all_text))"
  using assms
  by (auto simp: extract_all_entities_from_jsonl_def Let_def
           split: sum.splits prod.splits if_splits)

lemma annotator_failure:
  assumes "pipe_calls (extract_all_entities_from_jsonl nlp_pipe input_file file0 file1) = [ts]"
    and "nlp_pipe ts = Inl e"
  shows "extract_all_entities_from_jsonl nlp_pipe input_file file0 file1 =
           \<lparr>outcome = Inl e, written = None, pipe_calls = [ts]\<rparr>"
  using assms
  by (auto simp: extract_all_entities_from_jsonl_def Let_def
           split: sum.splits prod.splits if_splits)


lemma scatter_per_text:
  assumes cons: "\<forall>a\<in>set all_text. \<forall>b\<in>set all_text.
                   get_cache_key a = get_cache_key b \<longrightarrow>
                   extract_entities_from_doc (nlp a) = extract_entities_from_doc (nlp b)"
  shows "\<exists>new. scatter (plan_segments cache all_text)
                  (map nlp (texts_to_process (plan_segments cache all_text)))
               = Inr (map (\<lambda>t. case cache (get_cache_key t) of
                                  Some v \<Rightarrow> Some v
                                | None \<Rightarrow> Some (extract_entities_from_doc (nlp t))) all_text,
                      new) \<and>
               (\<forall>t\<in>set all_text. cache (get_cache_key t) = None \<longrightarrow>
                    new (get_cache_key t) = Some (extract_entities_from_doc (nlp t))) \<and>
               dom new = get_cache_key ` {t \<in> set all_text. cache (get_cache_key t) = None}"
proof -
  let ?p = "plan_segments cache all_text"
  let ?texts = "texts_to_process ?p"
  let ?idxs = "text_indices ?p"
  let ?docs = "map nlp ?texts"
  let ?f = "\<lambda>t. extract_entities_from_doc (nlp t)"
  have len: "length ?docs = length ?idxs"
    by (simp add: plan_lengths)
  from scatter_plan [of ?docs cache all_text]
  obtain ce new where
    sc: "scatter ?p ?docs = Inr (ce, new)"
    and lce: "length ce = length all_text"
    and miss: "\<forall>j<length ?docs. ce ! (?idxs ! j) = Some (extract_entities_from_doc (?docs ! j))"
    and hit: "\<forall>k. k \<notin> (!) ?idxs ` {0..<length ?docs} \<longrightarrow> ce ! k = cached_entities ?p ! k"
    and dm: "dom new = (\<lambda>j. get_cache_key (?texts ! j)) ` {0..<length ?docs}"
    by auto
  have img: "(!) ?idxs ` {0..<length ?docs} = set ?idxs"
    unfolding len by (auto simp: in_set_conv_nth)
  have ce_eq: "ce = map (\<lambda>t. case cache (get_cache_key t) of
                                  Some v \<Rightarrow> Some v | None \<Rightarrow> Some (?f t)) all_text"
  proof (rule nth_equalityI)
    show "length ce = length (map (\<lambda>t. case cache (get_cache_key t) of
                                  Some v \<Rightarrow> Some v | None \<Rightarrow> Some (?f t)) all_text)"
      using lce by simp
  next
    fix i assume "i < length ce"
    with lce have i: "i < length all_text" by simp
    show "ce ! i = map (\<lambda>t. case cache (get_cache_key t) of
                                  Some v \<Rightarrow> Some v | None \<Rightarrow> Some (?f t)) all_text ! i"
    proof (cases "cache (get_cache_key (all_text ! i))")
      case None
      with i have "i \<in> set ?idxs"
        by (simp add: plan_indices_set)
      then obtain j where j: "j < length ?idxs" "?idxs ! j = i"
        by (auto simp: in_set_conv_nth)
      have "?texts ! j = all_text ! i"
        using j by (simp add: plan_texts_indices [of cache all_text])
      moreover have "ce ! i = Some (extract_entities_from_doc (?docs ! j))"
        using miss j len by auto
      moreover have "?docs ! j = nlp (?texts ! j)"
        using j by (simp add: plan_lengths)
      ultimately show ?thesis
        using None i by simp
    next
      case (Some v)
      with i have "i \<notin> set ?idxs"
        by (simp add: plan_indices_set)
      with hit img have "ce ! i = cached_entities ?p ! i"
        by simp
      with Some i show ?thesis
        by (simp add: plan_cached)
    qed
  qed
  have sub: "set ?texts \<subseteq> set all_text"
    by (auto simp: plan_texts)
  have cons': "\<forall>a\<in>set ?texts. \<forall>b\<in>set ?texts. get_cache_key a = get_cache_key b \<longrightarrow> ?f a = ?f b"
    using cons sub by blast
  have "\<forall>j<length ?docs. extract_entities_from_doc (?docs ! j) = ?f (?texts ! (0 + j))"
    by simp
  from scatter_loop_new_values [OF cons' _ this sc [unfolded scatter_def]]
  have vals: "\<forall>j<length ?docs. new (get_cache_key (?texts ! j)) = Some (?f (?texts ! j))"
    by simp
  have new_miss: "\<forall>t\<in>set all_text. cache (get_cache_key t) = None \<longrightarrow>
                    new (get_cache_key t) = Some (?f t)"
  proof (intro ballI impI)
    fix t assume "t \<in> set all_text" "cache (get_cache_key t) = None"
    then have "t \<in> set ?texts"
      by (simp add: plan_texts)
    then obtain j where "j < length ?texts" "?texts ! j = t"
      by (auto simp: in_set_conv_nth)
    with vals show "new (get_cache_key t) = Some (?f t)"
      by auto
  qed
  have "(\<lambda>j. get_cache_key (?texts ! j)) ` {0..<length ?texts}
          = get_cache_key ` ((!) ?texts ` {0..<length ?texts})"
    by (simp add: image_image)
  then have "(\<lambda>j. get_cache_key (?texts ! j)) ` {0..<length ?docs} = get_cache_key ` set ?texts"
    by (simp add: nth_image)
  with dm have "dom new = get_cache_key ` {t \<in> set all_text. cache (get_cache_key t) = None}"
    by (simp add: plan_texts)
  with sc ce_eq new_miss show ?thesis
    by auto
qed


subsection \<open>Grouping computes the specified aggregate\<close>

lemma group_step_Some:
  "group_step de (Some e, m) =
     Inr (de(doc_key m \<mapsto>
            merge_entities (case de (doc_key m) of None \<Rightarrow> Map.empty | Some t \<Rightarrow> t) e))"
  by (simp add: Let_def doc_key_def)

lemma aggregate_spec_empty: "aggregate_spec de {} = de"
proof (rule ext)
  fix k
  show "aggregate_spec de {} k = de k"
  proof (cases "de k")
    case None
    then show ?thesis by (simp add: aggregate_spec_def seen_def)
  next
    case (Some t)
    have "(\<lambda>ty. if has_label de {} k ty then Some (members de {} k ty) else None) = t"
      using Some by (intro ext) (auto simp: has_label_def members_def)
    with Some show ?thesis by (simp add: aggregate_spec_def seen_def)
  qed
qed

lemma seen_step:
  "seen (de(doc_key m \<mapsto> v)) S k = seen de (insert (Some e, m) S) k"
  by (auto simp: seen_def)

lemma has_label_step:
  "has_label (de(doc_key m \<mapsto>
       merge_entities (case de (doc_key m) of None \<Rightarrow> Map.empty | Some t \<Rightarrow> t) e)) S k ty
     = has_label de (insert (Some e, m) S) k ty"
proof (cases "k = doc_key m")
  case False
  then show ?thesis by (auto simp: has_label_def)
next
  case True
  show ?thesis
    unfolding True
    by (cases "de (doc_key m)"; cases "e ty")
       (auto simp: has_label_def merge_entities_def split: option.splits)
qed

lemma members_step:
  "members (de(doc_key m \<mapsto>
       merge_entities (case de (doc_key m) of None \<Rightarrow> Map.empty | Some t \<Rightarrow> t) e)) S k ty
     = members de (insert (Some e, m) S) k ty"
proof (cases "k = doc_key m")
  case False
  then show ?thesis by (auto simp: members_def)
next
  case True
  show ?thesis
    unfolding True
    by (cases "de (doc_key m)"; cases "e ty")
       (auto simp: members_def merge_entities_def split: option.splits)
qed

lemma aggregate_spec_step:
  "aggregate_spec (de(doc_key m \<mapsto>
       merge_entities (case de (doc_key m) of None \<Rightarrow> Map.empty | Some t \<Rightarrow> t) e)) S
     = aggregate_spec de (insert (Some e, m) S)"
  by (rule ext) (simp only: aggregate_spec_def seen_step [where e = e] has_label_step members_step)

lemma group_loop_spec:
  "group_loop de xs =
     (if \<exists>m. (None, m) \<in> set xs then Inl AttributeError else Inr (aggregate_spec de (set xs)))"
proof (induction xs arbitrary: de)
  case Nil
  then show ?case by (simp add: aggregate_spec_empty)
next
  case (Cons x xs)
  obtain r m where x: "x = (r, m)" by (cases x)
  show ?case
  proof (cases r)
    case None
    with x show ?thesis by auto
  next
    case (Some e)
    show ?thesis
      unfolding x Some
      by (simp add: group_step_Some Cons.IH aggregate_spec_step del: group_step.simps)
  qed
qed


lemma group_entities_pairs:
  "group_entities (map fst ps) (map snd ps) =
     (if \<exists>m. (None, m) \<in> set ps then Inl AttributeError
      else Inr (aggregate_spec Map.empty (set ps)))"
  by (simp add: group_entities_def zip_map_fst_snd group_loop_spec)

text \<open>
  C7. The grouping loop visits every (result, metadata) pair of its input, and what it
  returns depends only on which pairs occur: two lists of pairs that are permutations of
  each other, or that merely have the same elements (so repeating a pair changes nothing),
  give the same per-document mapping from label to entity set. When no slot is pending
  this mapping is the specified aggregate: for each document the union, label by label,
  of the results of all its segments.
\<close>

theorem aggregate_order_independent:
  assumes "mset ps = mset qs \<or> set ps = set qs"
  shows "group_entities (map fst ps) (map snd ps) = group_entities (map fst qs) (map snd qs) \<and>
         (if \<exists>m. (None, m) \<in> set ps
          then group_entities (map fst ps) (map snd ps) = Inl AttributeError
          else group_entities (map fst ps) (map snd ps) = Inr (aggregate_spec Map.empty (set ps)))"
proof -
  from assms have "set ps = set qs"
    by (auto dest: mset_eq_setD)
  then show ?thesis
    by (simp add: group_entities_pairs)
qed

theorem aggregate_order_independent_witness:
  "mset [(Some [''PERSON'' \<mapsto> {''Bob''}], \<lparr>accession = ''A'', path = ''x''\<rparr>),
         (Some [''ORG'' \<mapsto> {''Acme''}], \<lparr>accession = ''A'', path = ''x''\<rparr>),
         (Some Map.empty, \<lparr>accession = ''B'', path = ''z''\<rparr>)]
     = mset [(Some Map.empty, \<lparr>accession = ''B'', path = ''z''\<rparr>),
             (Some [''ORG'' \<mapsto> {''Acme''}], \<lparr>accession = ''A'', path = ''x''\<rparr>),
             (Some [''PERSON'' \<mapsto> {''Bob''}], \<lparr>accession = ''A'', path = ''x''\<rparr>)] \<and>
   group_entities
     [Some [''PERSON'' \<mapsto> {''Bob''}], Some [''ORG'' \<mapsto> {''Acme''}], Some Map.empty]
     [\<lparr>accession = ''A'', path = ''x''\<rparr>, \<lparr>accession = ''A'', path = ''x''\<rparr>,
      \<lparr>accession = ''B'', path = ''z''\<rparr>]
     = group_entities
         [Some Map.empty, Some [''ORG'' \<mapsto> {''Acme''}], Some [''PERSON'' \<mapsto> {''Bob''}]]
         [\<lparr>accession = ''B'', path = ''z''\<rparr>, \<lparr>accession = ''A'', path = ''x''\<rparr>,
          \<lparr>accession = ''A'', path = ''x''\<rparr>]"
proof -
  let ?ps = "[(Some [''PERSON'' \<mapsto> {''Bob''}], \<lparr>accession = ''A'', path = ''x''\<rparr>),
         (Some [''ORG'' \<mapsto> {''Acme''}], \<lparr>accession = ''A'', path = ''x''\<rparr>),
         (Some Map.empty, \<lparr>accession = ''B'', path = ''z''\<rparr>)]"
  let ?qs = "[(Some Map.empty, \<lparr>accession = ''B'', path = ''z''\<rparr>),
             (Some [''ORG'' \<mapsto> {''Acme''}], \<lparr>accession = ''A'', path = ''x''\<rparr>),
             (Some [''PERSON'' \<mapsto> {''Bob''}], \<lparr>accession = ''A'', path = ''x''\<rparr>)]"
  have h: "mset ?ps = mset ?qs"
    by simp
  then have "mset ?ps = mset ?qs \<or> set ?ps = set ?qs" ..
  from aggregate_order_independent [OF this] h show ?thesis
    by simp
qed

subsection \<open>Partition and order of the plan\<close>

text \<open>
  C6. The planner puts every segment on exactly one side: the number of hits and the
  number of texts to process add up to the number of segments, and the recorded indices
  are, without repetition, exactly the positions of the segments whose fingerprint is not
  in the cache. When the annotator returns one document per submitted text, the
  scatter-back succeeds and leaves a result list with one slot per segment, in the
  original order: slot \<open>i\<close> holds the cached result when segment \<open>i\<close> was a hit, and
  otherwise the entities extracted from the document returned for the submitted copy of
  segment \<open>i\<close>'s text.
\<close>

theorem plan_partition_and_scatter:
  assumes "p = plan_segments cache all_text"
    and "length docs = length (texts_to_process p)"
  shows "cache_hits p + length (texts_to_process p) = length all_text \<and>
         length (text_indices p) = length (texts_to_process p) \<and>
         distinct (text_indices p) \<and>
         set (text_indices p) =
           {i. i < length all_text \<and> cache (get_cache_key (all_text ! i)) = None} \<and>
         (\<exists>ce new.
            scatter p docs = Inr (ce, new) \<and>
            length ce = length all_text \<and>
            (\<forall>i<length all_text.
               case cache (get_cache_key (all_text ! i)) of
                 Some v \<Rightarrow> ce ! i = Some v
               | None \<Rightarrow>
                   (\<exists>j<length docs.
                      text_indices p ! j = i \<and>
                      texts_to_process p ! j = all_text ! i \<and>
                      ce ! i = Some (extract_entities_from_doc (docs ! j)))))"
proof -
  let ?idxs = "text_indices p" and ?texts = "texts_to_process p"
  have len: "length docs = length ?idxs"
    using assms by (simp add: plan_lengths)
  have count: "cache_hits p + length ?texts = length all_text"
    using sum_length_filter_compl [of "\<lambda>t. cache (get_cache_key t) = None" all_text]
    by (simp add: assms(1) plan_hits plan_texts)
  from scatter_plan [of docs cache all_text] assms
  obtain ce new where
    sc: "scatter p docs = Inr (ce, new)"
    and lce: "length ce = length all_text"
    and miss: "\<forall>j<length docs. ce ! (?idxs ! j) = Some (extract_entities_from_doc (docs ! j))"
    and hit: "\<forall>k. k \<notin> (!) ?idxs ` {0..<length docs} \<longrightarrow> ce ! k = cached_entities p ! k"
    by auto
  have img: "(!) ?idxs ` {0..<length docs} = set ?idxs"
    unfolding len by (simp add: nth_image)
  have slots: "\<forall>i<length all_text.
               case cache (get_cache_key (all_text ! i)) of
                 Some v \<Rightarrow> ce ! i = Some v
               | None \<Rightarrow>
                   (\<exists>j<length docs.
                      ?idxs ! j = i \<and> ?texts ! j = all_text ! i \<and>
                      ce ! i = Some (extract_entities_from_doc (docs ! j)))"
  proof (intro allI impI)
    fix i assume i: "i < length all_text"
    show "case cache (get_cache_key (all_text ! i)) of
                 Some v \<Rightarrow> ce ! i = Some v
               | None \<Rightarrow>
                   (\<exists>j<length docs.
                      ?idxs ! j = i \<and> ?texts ! j = all_text ! i \<and>
                      ce ! i = Some (extract_entities_from_doc (docs ! j)))"
    proof (cases "cache (get_cache_key (all_text ! i))")
      case None
      with i have "i \<in> set ?idxs"
        by (simp add: assms(1) plan_indices_set)
      then obtain j where j: "j < length ?idxs" "?idxs ! j = i"
        by (auto simp: in_set_conv_nth)
      have "?texts ! j = all_text ! i"
        using j by (simp add: assms(1) plan_texts_indices [of cache all_text])
      moreover have "ce ! i = Some (extract_entities_from_doc (docs ! j))"
        using miss j len by auto
      ultimately show ?thesis
        using None j len by auto
    next
      case (Some v)
      with i have "i \<notin> set ?idxs"
        by (simp add: assms(1) plan_indices_set)
      with hit img have "ce ! i = cached_entities p ! i"
        by simp
      with Some i show ?thesis
        by (simp add: assms(1) plan_cached)
    qed
  qed
  show ?thesis
    using count sc lce slots
    by (auto simp: assms(1) plan_lengths plan_indices_distinct plan_indices_set)
qed

theorem plan_partition_and_scatter_witness:
  "length example_docs
     = length (texts_to_process (plan_segments Map.empty [''hello world'', ''goodbye''])) \<and>
   cache_hits (plan_segments Map.empty [''hello world'', ''goodbye''])
     + length (texts_to_process (plan_segments Map.empty [''hello world'', ''goodbye''])) = 2 \<and>
   (\<exists>ce new.
      scatter (plan_segments Map.empty [''hello world'', ''goodbye'']) example_docs = Inr (ce, new) \<and>
      length ce = 2 \<and>
      ce ! 0 = Some [''PERSON'' \<mapsto> {''Bob''}] \<and> ce ! 1 = Some Map.empty)"
proof -
  let ?p = "plan_segments Map.empty [''hello world'', ''goodbye'']"
  have h: "length example_docs = length (texts_to_process ?p)"
    by (simp add: example_docs_def plan_segments_def)
  have sc: "scatter ?p example_docs
              = Inr ([Some [''PERSON'' \<mapsto> {''Bob''}], Some Map.empty],
                     [get_cache_key ''hello world'' \<mapsto> [''PERSON'' \<mapsto> {''Bob''}],
                      get_cache_key ''goodbye'' \<mapsto> Map.empty])"
    by (simp add: example_docs_def plan_segments_def scatter_def extract_entities_from_doc_def
          Let_def)
  from plan_partition_and_scatter [OF refl h] h sc show ?thesis
    by simp
qed

subsection \<open>Runs that end early, and the runs of the scenario\<close>

lemma example_run_warm:
  assumes "load_cache file1 = Inr cache1"
  shows "extract_all_entities_from_jsonl example_pipe example_input (Pickled example_cache) file1 =
     \<lparr>outcome = Inr [(''A'', ''x'') \<mapsto> [''PERSON'' \<mapsto> {''Bob''}],
                      (''A'', ''y'') \<mapsto> [''PERSON'' \<mapsto> {''Bob''}],
                      (''B'', ''z'') \<mapsto> Map.empty],
      written = Some (cache1 ++
                      [''5eb63bbbe01eeed093cb22bb8f5acdc3'' \<mapsto> [''PERSON'' \<mapsto> {''Bob''}]]),
      pipe_calls = [[''hello world'', ''hello world'']]\<rparr>"
  using assms
  by (simp add: extract_all_entities_from_jsonl_def load_cache_def read_example
        plan_segments_def example_pipe_def scatter_def group_entities_def example_cache_def
        extract_example_hello extract_example_goodbye md5_hello_world md5_goodbye
        merge_entities_empty Let_def)

lemma load_failure:
  "load_cache file0 = Inl e \<Longrightarrow>
   extract_all_entities_from_jsonl nlp_pipe input_file file0 file1 =
     \<lparr>outcome = Inl e, written = None, pipe_calls = []\<rparr>"
  by (simp add: extract_all_entities_from_jsonl_def)

lemma read_failure:
  "load_cache file0 = Inr cache \<Longrightarrow> read_segments input_file ([], []) = Inl e \<Longrightarrow>
   extract_all_entities_from_jsonl nlp_pipe input_file file0 file1 =
     \<lparr>outcome = Inl e, written = None, pipe_calls = []\<rparr>"
  by (simp add: extract_all_entities_from_jsonl_def)

lemma empty_batch:
  "load_cache file0 = Inr cache \<Longrightarrow> read_segments input_file ([], []) = Inr ([], tm) \<Longrightarrow>
   extract_all_entities_from_jsonl nlp_pipe input_file file0 file1 =
     \<lparr>outcome = Inl ZeroDivisionError, written = None, pipe_calls = []\<rparr>"
  by (simp add: extract_all_entities_from_jsonl_def)

lemma all_hits_skip_commit:
  assumes "load_cache file0 = Inr cache"
    and "read_segments input_file ([], []) = Inr (all_text, tm)"
    and "all_text \<noteq> []"
    and "\<forall>t\<in>set all_text. cache (get_cache_key t) \<noteq> None"
  shows "extract_all_entities_from_jsonl nlp_pipe input_file file0 file1 =
           \<lparr>outcome = group_entities (map (\<lambda>t. cache (get_cache_key t)) all_text) tm,
            written = None, pipe_calls = []\<rparr>"
proof -
  have "texts_to_process (plan_segments cache all_text) = []"
    using assms(4) by (simp add: plan_texts)
  with assms(1-3) show ?thesis
    by (simp add: extract_all_entities_from_jsonl_def plan_cached)
qed

lemma pipe_calls_file1:
  "pipe_calls (extract_all_entities_from_jsonl nlp_pipe input_file file0 g) =
   pipe_calls (extract_all_entities_from_jsonl nlp_pipe input_file file0 file1)"
  by (simp add: extract_all_entities_from_jsonl_def Let_def split: sum.splits prod.splits)

lemma run_eq:
  "run nlp_pipe input_file file =
     (extract_all_entities_from_jsonl nlp_pipe input_file file file,
      case written (extract_all_entities_from_jsonl nlp_pipe input_file file file) of
        None \<Rightarrow> file | Some c \<Rightarrow> Pickled c)"
  by (simp add: run_def cache_file_states_def write_states_def Let_def split: option.splits)

lemma example_run_cold:
  "run example_pipe example_input Absent =
     (\<lparr>outcome = Inr [(''A'', ''x'') \<mapsto> [''PERSON'' \<mapsto> {''Bob''}],
                       (''A'', ''y'') \<mapsto> [''PERSON'' \<mapsto> {''Bob''}],
                       (''B'', ''z'') \<mapsto> Map.empty],
       written = Some [''5eb63bbbe01eeed093cb22bb8f5acdc3'' \<mapsto> [''PERSON'' \<mapsto> {''Bob''}],
                       ''69faab6268350295550de7d587bc323d'' \<mapsto> Map.empty],
       pipe_calls = [[''hello world'', ''hello world'', ''goodbye'']]\<rparr>,
      Pickled [''5eb63bbbe01eeed093cb22bb8f5acdc3'' \<mapsto> [''PERSON'' \<mapsto> {''Bob''}],
               ''69faab6268350295550de7d587bc323d'' \<mapsto> Map.empty])"
  by (simp add: run_eq example_run_reload [of Absent Map.empty] load_cache_def)

subsection \<open>The claims about whole runs\<close>

text \<open>
  C1, as the code has it. In the scenario of the specification, started without a cache
  file, the run hands the annotator one batch with the text of every missed segment in
  segment order: "hello world" twice, then "goodbye". The aggregates are keyed by
  (accession, path), so there are three: (A, x) and (A, y) with PERSON Bob, and (B, z)
  with no entity. The cache file written afterwards holds exactly two entries.
  In general a run calls the annotator at most once, on the texts of all segments whose
  fingerprint is not in the loaded cache, in segment order and with repetitions; equal
  texts are merged only in the dictionary of new cache entries, which is keyed by
  fingerprint.
\<close>

theorem example_scenario_submits_every_miss:
  "run example_pipe example_input Absent =
     (\<lparr>outcome = Inr [(''A'', ''x'') \<mapsto> [''PERSON'' \<mapsto> {''Bob''}],
                       (''A'', ''y'') \<mapsto> [''PERSON'' \<mapsto> {''Bob''}],
                       (''B'', ''z'') \<mapsto> Map.empty],
       written = Some [''5eb63bbbe01eeed093cb22bb8f5acdc3'' \<mapsto> [''PERSON'' \<mapsto> {''Bob''}],
                       ''69faab6268350295550de7d587bc323d'' \<mapsto> Map.empty],
       pipe_calls = [[''hello world'', ''hello world'', ''goodbye'']]\<rparr>,
      Pickled [''5eb63bbbe01eeed093cb22bb8f5acdc3'' \<mapsto> [''PERSON'' \<mapsto> {''Bob''}],
               ''69faab6268350295550de7d587bc323d'' \<mapsto> Map.empty]) \<and>
   card (dom [''5eb63bbbe01eeed093cb22bb8f5acdc3'' \<mapsto> [''PERSON'' \<mapsto> {''Bob''}],
              ''69faab6268350295550de7d587bc323d'' \<mapsto> (Map.empty :: entities)]) = 2 \<and>
   (pipe_calls (extract_all_entities_from_jsonl nlp_pipe input_file file0 file1) = [] \<or>
    (\<exists>cache all_text tm.
       load_cache file0 = Inr cache \<and>
       read_segments input_file ([], []) = Inr (all_text, tm) \<and>
       pipe_calls (extract_all_entities_from_jsonl nlp_pipe input_file file0 file1) =
         [filter (\<lambda>t. cache (get_cache_key t) = None) all_text]))"
proof -
  have general:
    "pipe_calls (extract_all_entities_from_jsonl nlp_pipe input_file file0 file1) = [] \<or>
     (\<exists>cache all_text tm.
       load_cache file0 = Inr cache \<and>
       read_segments input_file ([], []) = Inr (all_text, tm) \<and>
       pipe_calls (extract_all_entities_from_jsonl nlp_pipe input_file file0 file1) =
         [filter (\<lambda>t. cache (get_cache_key t) = None) all_text])"
  proof (cases "pipe_calls (extract_all_entities_from_jsonl nlp_pipe input_file file0 file1)")
    case Nil
    then show ?thesis by simp
  next
    case (Cons ts tss)
    from pipe_callsD [OF Cons] Cons show ?thesis
      by (auto simp: plan_texts)
  qed
  have "card (dom [''5eb63bbbe01eeed093cb22bb8f5acdc3'' \<mapsto> [''PERSON'' \<mapsto> {''Bob''}],
              ''69faab6268350295550de7d587bc323d'' \<mapsto> (Map.empty :: entities)]) = 2"
    by simp
  with general example_run_cold show ?thesis
    by blast
qed

text \<open>
  The batch of the scenario holds "hello world" twice, so it is not true that each distinct
  text reaches the annotator once; and the two segments of accession A are two documents.
\<close>

theorem example_scenario_counterexample:
  "concat (pipe_calls (fst (run example_pipe example_input Absent)))
     = [''hello world'', ''hello world'', ''goodbye''] \<and>
   \<not> distinct (concat (pipe_calls (fst (run example_pipe example_input Absent)))) \<and>
   outcome (fst (run example_pipe example_input Absent)) =
     Inr [(''A'', ''x'') \<mapsto> [''PERSON'' \<mapsto> {''Bob''}],
          (''A'', ''y'') \<mapsto> [''PERSON'' \<mapsto> {''Bob''}],
          (''B'', ''z'') \<mapsto> Map.empty]"
  by (simp add: example_run_cold)

text \<open>
  C3, as the code has it. A cache file that cannot be unpickled makes the run raise the
  unpickling error at once: nothing is read, annotated, written or output, and the file
  stays as it is. A missing cache file is not an error: the run behaves as with a file
  holding the empty dictionary.
\<close>

theorem unreadable_cache_aborts:
  "run nlp_pipe input_file Unreadable =
     (\<lparr>outcome = Inl UnpicklingError, written = None, pipe_calls = []\<rparr>, Unreadable) \<and>
   extract_all_entities_from_jsonl nlp_pipe input_file Unreadable file1 =
     \<lparr>outcome = Inl UnpicklingError, written = None, pipe_calls = []\<rparr> \<and>
   load_cache Absent = Inr Map.empty \<and>
   extract_all_entities_from_jsonl nlp_pipe input_file Absent file1 =
     extract_all_entities_from_jsonl nlp_pipe input_file (Pickled Map.empty) file1"
  by (simp add: run_eq load_failure load_cache_def extract_all_entities_from_jsonl_def)

text \<open>
  On the scenario, the run over an unreadable cache file aborts, while the cold start
  over a missing file succeeds: the unreadable file is not treated as absent.
\<close>

theorem unreadable_cache_counterexample:
  "outcome (fst (run example_pipe example_input Unreadable)) = Inl UnpicklingError \<and>
   outcome (fst (run example_pipe example_input Unreadable))
     \<noteq> outcome (fst (run example_pipe example_input Absent))"
proof -
  have "fst (run example_pipe example_input Unreadable) =
          \<lparr>outcome = Inl UnpicklingError, written = None, pipe_calls = []\<rparr>"
    by (simp add: run_eq load_failure load_cache_def)
  then show ?thesis
    by (simp add: example_run_cold)
qed

text \<open>
  A batch without any segment (an empty input file, or records whose text has no
  non-empty paragraph) ends at the hit-rate print of line 76, which divides by the number
  of segments. The batch files written by \<^verbatim>\<open>data_prep.py\<close> always hold a record, and every
  record a non-empty segment, so the statements about batches below ask for a segment.
\<close>

lemma empty_batch_divides_by_zero:
  "extract_all_entities_from_jsonl nlp_pipe [] (Pickled c) file1 =
     \<lparr>outcome = Inl ZeroDivisionError, written = None, pipe_calls = []\<rparr> \<and>
   extract_all_entities_from_jsonl nlp_pipe [segment_record ''A'' ''x'' []] (Pickled c) file1 =
     \<lparr>outcome = Inl ZeroDivisionError, written = None, pipe_calls = []\<rparr>"
proof -
  have "read_segments [segment_record ''A'' ''x'' []] ([], []) = Inr ([], [])"
    by (simp add: segment_record_def read_line_def split_paragraphs_def strip_def)
  then show ?thesis
    by (simp add: empty_batch [of _ c] load_cache_def)
qed

text \<open>
  C10. When the batch has a segment and the fingerprint of every segment is in the loaded
  cache, nothing is left to process: the annotator is not called, the cache file is never
  opened for writing and keeps its content, and the per-document output is grouped from
  the cached results alone.
\<close>

theorem all_hits_skip_annotation_and_commit:
  assumes "load_cache file0 = Inr cache"
    and "read_segments input_file ([], []) = Inr (all_text, tm)"
    and "all_text \<noteq> []"
    and "\<forall>t\<in>set all_text. cache (get_cache_key t) \<noteq> None"
  shows "texts_to_process (plan_segments cache all_text) = [] \<and>
         cache_hits (plan_segments cache all_text) = length all_text \<and>
         pipe_calls (extract_all_entities_from_jsonl nlp_pipe input_file file0 file1) = [] \<and>
         written (extract_all_entities_from_jsonl nlp_pipe input_file file0 file1) = None \<and>
         cache_file_states (extract_all_entities_from_jsonl nlp_pipe input_file file0 file1) file1
           = [file1] \<and>
         snd (run nlp_pipe input_file file0) = file0 \<and>
         outcome (extract_all_entities_from_jsonl nlp_pipe input_file file0 file1)
           = group_entities (map (\<lambda>t. cache (get_cache_key t)) all_text) tm"
proof -
  have none: "texts_to_process (plan_segments cache all_text) = []"
    using assms(4) by (simp add: plan_texts)
  have "filter (\<lambda>t. cache (get_cache_key t) \<noteq> None) all_text = all_text"
    using assms(4) by (simp add: filter_id_conv)
  then have hits: "cache_hits (plan_segments cache all_text) = length all_text"
    by (simp add: plan_hits)
  have r: "extract_all_entities_from_jsonl nlp_pipe input_file file0 g =
             \<lparr>outcome = group_entities (map (\<lambda>t. cache (get_cache_key t)) all_text) tm,
              written = None, pipe_calls = []\<rparr>" for g
    using assms(1-3) none by (simp add: extract_all_entities_from_jsonl_def plan_cached)
  show ?thesis
    using none hits by (simp add: r run_def cache_file_states_def)
qed

theorem all_hits_skip_annotation_and_commit_witness:
  "load_cache (Pickled example_entries) = Inr example_entries \<and>
   read_segments example_input ([], []) =
     Inr ([''hello world'', ''hello world'', ''goodbye''],
          [\<lparr>accession = ''A'', path = ''x''\<rparr>, \<lparr>accession = ''A'', path = ''y''\<rparr>,
           \<lparr>accession = ''B'', path = ''z''\<rparr>]) \<and>
   example_entries (get_cache_key ''hello world'') \<noteq> None \<and>
   example_entries (get_cache_key ''goodbye'') \<noteq> None \<and>
   pipe_calls (extract_all_entities_from_jsonl failing_pipe example_input
                 (Pickled example_entries) (Pickled example_entries)) = [] \<and>
   written (extract_all_entities_from_jsonl failing_pipe example_input
              (Pickled example_entries) (Pickled example_entries)) = None \<and>
   cache_file_states (extract_all_entities_from_jsonl failing_pipe example_input
              (Pickled example_entries) (Pickled example_entries)) (Pickled example_entries)
     = [Pickled example_entries] \<and>
   snd (run failing_pipe example_input (Pickled example_entries)) = Pickled example_entries \<and>
   outcome (extract_all_entities_from_jsonl failing_pipe example_input
              (Pickled example_entries) (Pickled example_entries))
     = Inr [(''A'', ''x'') \<mapsto> [''PERSON'' \<mapsto> {''Bob''}],
            (''A'', ''y'') \<mapsto> [''PERSON'' \<mapsto> {''Bob''}],
            (''B'', ''z'') \<mapsto> Map.empty]"
proof -
  have l: "load_cache (Pickled example_entries) = Inr example_entries"
    by (simp add: load_cache_def)
  have k1: "example_entries (get_cache_key ''hello world'') \<noteq> None"
    by (simp add: example_entries_def md5_hello_world)
  have k2: "example_entries (get_cache_key ''goodbye'') \<noteq> None"
    by (simp add: example_entries_def md5_goodbye)
  have ne: "[''hello world'', ''hello world'', ''goodbye''] \<noteq> []"
    by simp
  have h: "\<forall>t\<in>set [''hello world'', ''hello world'', ''goodbye''].
             example_entries (get_cache_key t) \<noteq> None"
    using k1 k2 by simp
  have g: "group_entities
             (map (\<lambda>t. example_entries (get_cache_key t))
                [''hello world'', ''hello world'', ''goodbye''])
             [\<lparr>accession = ''A'', path = ''x''\<rparr>, \<lparr>accession = ''A'', path = ''y''\<rparr>,
              \<lparr>accession = ''B'', path = ''z''\<rparr>]
           = Inr [(''A'', ''x'') \<mapsto> [''PERSON'' \<mapsto> {''Bob''}],
                  (''A'', ''y'') \<mapsto> [''PERSON'' \<mapsto> {''Bob''}],
                  (''B'', ''z'') \<mapsto> Map.empty]"
    by (simp add: group_entities_def example_entries_def md5_hello_world md5_goodbye
          merge_entities_empty Let_def)
  note c = all_hits_skip_annotation_and_commit [OF l read_example ne h,
      of failing_pipe "Pickled example_entries"]
  from l read_example k1 k2 c g show ?thesis
    by simp
qed

lemma read_segments_append:
  "read_segments (xs @ ys) acc =
     (case read_segments xs acc of Inl e \<Rightarrow> Inl e | Inr acc' \<Rightarrow> read_segments ys acc')"
proof (induction xs arbitrary: acc)
  case Nil
  then show ?case by simp
next
  case (Cons l ls)
  obtain a b where acc: "acc = (a, b)" by (cases acc)
  show ?case
    unfolding acc by (simp add: Cons.IH split: sum.splits prod.splits)
qed

lemma read_segments_bad_line:
  assumes "read_segments good ([], []) = Inr acc" and "read_line l = Inl e"
  shows "read_segments (good @ l # rest) ([], []) = Inl e"
  using assms by (cases acc) (simp add: read_segments_append)

text \<open>
  C4, as the code has it. No record is skipped: behind any prefix of well-formed lines, a
  record without \<^verbatim>\<open>text\<close>, or without \<^verbatim>\<open>accession\<close> or \<^verbatim>\<open>path\<close> while its text has a
  non-empty segment, raises \<^verbatim>\<open>KeyError\<close> for the first key found missing, and the run
  aborts with it: no record of the shard is annotated, cached or output. Only a record
  whose text has no non-empty segment is passed over, without a look at its other keys.
\<close>

theorem missing_key_aborts_shard:
  assumes "load_cache file0 = Inr cache"
    and "read_segments good ([], []) = Inr acc"
  shows
    "(data ''text'' = None \<longrightarrow>
        extract_all_entities_from_jsonl nlp_pipe (good @ Object data # rest) file0 file1 =
          \<lparr>outcome = Inl (KeyError ''text''), written = None, pipe_calls = []\<rparr>) \<and>
     (\<forall>t. data ''text'' = Some t \<and>
          filter (\<lambda>p. p \<noteq> []) (map strip (split_paragraphs t)) \<noteq> [] \<and>
          data ''accession'' = None \<longrightarrow>
        extract_all_entities_from_jsonl nlp_pipe (good @ Object data # rest) file0 file1 =
          \<lparr>outcome = Inl (KeyError ''accession''), written = None, pipe_calls = []\<rparr>) \<and>
     (\<forall>t a. data ''text'' = Some t \<and>
          filter (\<lambda>p. p \<noteq> []) (map strip (split_paragraphs t)) \<noteq> [] \<and>
          data ''accession'' = Some a \<and> data ''path'' = None \<longrightarrow>
        extract_all_entities_from_jsonl nlp_pipe (good @ Object data # rest) file0 file1 =
          \<lparr>outcome = Inl (KeyError ''path''), written = None, pipe_calls = []\<rparr>) \<and>
     (\<forall>t. data ''text'' = Some t \<and>
          filter (\<lambda>p. p \<noteq> []) (map strip (split_paragraphs t)) = [] \<longrightarrow>
        read_segments (good @ Object data # rest) ([], []) = read_segments (good @ rest) ([], []))"
proof (intro conjI allI impI)
  assume "data ''text'' = None"
  then have "read_line (Object data) = Inl (KeyError ''text'')"
    by (simp add: read_line_def)
  from read_failure [OF assms(1) read_segments_bad_line [OF assms(2) this]]
  show "extract_all_entities_from_jsonl nlp_pipe (good @ Object data # rest) file0 file1 =
          \<lparr>outcome = Inl (KeyError ''text''), written = None, pipe_calls = []\<rparr>" .
next
  fix t
  assume "data ''text'' = Some t \<and>
          filter (\<lambda>p. p \<noteq> []) (map strip (split_paragraphs t)) \<noteq> [] \<and>
          data ''accession'' = None"
  then have "read_line (Object data) = Inl (KeyError ''accession'')"
    by (simp add: read_line_def segment_meta_def)
  from read_failure [OF assms(1) read_segments_bad_line [OF assms(2) this]]
  show "extract_all_entities_from_jsonl nlp_pipe (good @ Object data # rest) file0 file1 =
          \<lparr>outcome = Inl (KeyError ''accession''), written = None, pipe_calls = []\<rparr>" .
next
  fix t a
  assume "data ''text'' = Some t \<and>
          filter (\<lambda>p. p \<noteq> []) (map strip (split_paragraphs t)) \<noteq> [] \<and>
          data ''accession'' = Some a \<and> data ''path'' = None"
  then have "read_line (Object data) = Inl (KeyError ''path'')"
    by (simp add: read_line_def segment_meta_def)
  from read_failure [OF assms(1) read_segments_bad_line [OF assms(2) this]]
  show "extract_all_entities_from_jsonl nlp_pipe (good @ Object data # rest) file0 file1 =
          \<lparr>outcome = Inl (KeyError ''path''), written = None, pipe_calls = []\<rparr>" .
next
  fix t
  assume "data ''text'' = Some t \<and>
          filter (\<lambda>p. p \<noteq> []) (map strip (split_paragraphs t)) = []"
  then have "read_line (Object data) = Inr ([], [])"
    by (simp add: read_line_def)
  then show "read_segments (good @ Object data # rest) ([], []) = read_segments (good @ rest) ([], [])"
    using assms(2) by (cases acc) (simp add: read_segments_append)
qed

lemma read_goodbye:
  "read_segments [segment_record ''B'' ''z'' ''goodbye''] ([], []) =
     Inr ([''goodbye''], [\<lparr>accession = ''B'', path = ''z''\<rparr>])"
  by (simp add: segment_record_def read_line_def segment_meta_def strip_goodbye split_goodbye)

theorem missing_key_aborts_shard_witness:
  "load_cache Absent = Inr Map.empty \<and>
   read_segments [segment_record ''B'' ''z'' ''goodbye''] ([], []) =
     Inr ([''goodbye''], [\<lparr>accession = ''B'', path = ''z''\<rparr>]) \<and>
   extract_all_entities_from_jsonl example_pipe
     ([segment_record ''B'' ''z'' ''goodbye''] @
      Object [''accession'' \<mapsto> ''A'', ''path'' \<mapsto> ''x''] #
      [segment_record ''A'' ''y'' ''hello world'']) Absent Absent =
     \<lparr>outcome = Inl (KeyError ''text''), written = None, pipe_calls = []\<rparr> \<and>
   extract_all_entities_from_jsonl example_pipe
     ([segment_record ''B'' ''z'' ''goodbye''] @
      Object [''path'' \<mapsto> ''x'', ''text'' \<mapsto> ''hello world''] #
      [segment_record ''A'' ''y'' ''hello world'']) Absent Absent =
     \<lparr>outcome = Inl (KeyError ''accession''), written = None, pipe_calls = []\<rparr> \<and>
   extract_all_entities_from_jsonl example_pipe
     ([segment_record ''B'' ''z'' ''goodbye''] @
      Object [''accession'' \<mapsto> ''A'', ''text'' \<mapsto> ''hello world''] #
      [segment_record ''A'' ''y'' ''hello world'']) Absent Absent =
     \<lparr>outcome = Inl (KeyError ''path''), written = None, pipe_calls = []\<rparr> \<and>
   read_segments
     ([segment_record ''B'' ''z'' ''goodbye''] @
      Object [''text'' \<mapsto> []] #
      [segment_record ''A'' ''y'' ''hello world'']) ([], []) =
   read_segments
     ([segment_record ''B'' ''z'' ''goodbye''] @ [segment_record ''A'' ''y'' ''hello world''])
     ([], [])"
proof -
  have l: "load_cache Absent = Inr Map.empty"
    by (simp add: load_cache_def)
  note t = missing_key_aborts_shard [OF l read_goodbye,
      of _ example_pipe "[segment_record ''A'' ''y'' ''hello world'']" Absent]
  have 1: "extract_all_entities_from_jsonl example_pipe
     ([segment_record ''B'' ''z'' ''goodbye''] @
      Object [''accession'' \<mapsto> ''A'', ''path'' \<mapsto> ''x''] #
      [segment_record ''A'' ''y'' ''hello world'']) Absent Absent =
     \<lparr>outcome = Inl (KeyError ''text''), written = None, pipe_calls = []\<rparr>"
    using t [of "[''accession'' \<mapsto> ''A'', ''path'' \<mapsto> ''x'']"] by simp
  have 2: "extract_all_entities_from_jsonl example_pipe
     ([segment_record ''B'' ''z'' ''goodbye''] @
      Object [''path'' \<mapsto> ''x'', ''text'' \<mapsto> ''hello world''] #
      [segment_record ''A'' ''y'' ''hello world'']) Absent Absent =
     \<lparr>outcome = Inl (KeyError ''accession''), written = None, pipe_calls = []\<rparr>"
    using t [of "[''path'' \<mapsto> ''x'', ''text'' \<mapsto> ''hello world'']"]
    by (simp add: strip_hello split_hello)
  have 3: "extract_all_entities_from_jsonl example_pipe
     ([segment_record ''B'' ''z'' ''goodbye''] @
      Object [''accession'' \<mapsto> ''A'', ''text'' \<mapsto> ''hello world''] #
      [segment_record ''A'' ''y'' ''hello world'']) Absent Absent =
     \<lparr>outcome = Inl (KeyError ''path''), written = None, pipe_calls = []\<rparr>"
    using t [of "[''accession'' \<mapsto> ''A'', ''text'' \<mapsto> ''hello world'']"]
    by (simp add: strip_hello split_hello)
  have 4: "read_segments
     ([segment_record ''B'' ''z'' ''goodbye''] @
      Object [''text'' \<mapsto> []] #
      [segment_record ''A'' ''y'' ''hello world'']) ([], []) =
   read_segments
     ([segment_record ''B'' ''z'' ''goodbye''] @ [segment_record ''A'' ''y'' ''hello world''])
     ([], [])"
    using t [of "[''text'' \<mapsto> []]"]
    by (simp add: split_paragraphs_def strip_def)
  from l read_goodbye 1 2 3 4 show ?thesis
    by blast
qed

text \<open>
  A shard of one record without \<^verbatim>\<open>text\<close> and one good record: the run aborts and the
  good record, which alone would give the aggregate of (B, z), is not processed.
\<close>

theorem missing_key_counterexample:
  "outcome (fst (run example_pipe
      [Object [''accession'' \<mapsto> ''A'', ''path'' \<mapsto> ''x''],
       segment_record ''B'' ''z'' ''goodbye''] Absent)) = Inl (KeyError ''text'') \<and>
   pipe_calls (fst (run example_pipe
      [Object [''accession'' \<mapsto> ''A'', ''path'' \<mapsto> ''x''],
       segment_record ''B'' ''z'' ''goodbye''] Absent)) = [] \<and>
   outcome (fst (run example_pipe [segment_record ''B'' ''z'' ''goodbye''] Absent)) =
     Inr [(''B'', ''z'') \<mapsto> Map.empty]"
proof -
  have "extract_all_entities_from_jsonl example_pipe
      [Object [''accession'' \<mapsto> ''A'', ''path'' \<mapsto> ''x''],
       segment_record ''B'' ''z'' ''goodbye''] Absent Absent
      = \<lparr>outcome = Inl (KeyError ''text''), written = None, pipe_calls = []\<rparr>"
    by (simp add: extract_all_entities_from_jsonl_def load_cache_def read_line_def)
  moreover have "outcome (extract_all_entities_from_jsonl example_pipe
      [segment_record ''B'' ''z'' ''goodbye''] Absent Absent) = Inr [(''B'', ''z'') \<mapsto> Map.empty]"
    by (simp add: extract_all_entities_from_jsonl_def load_cache_def read_goodbye
          plan_segments_def example_pipe_def scatter_def group_entities_def
          extract_example_goodbye merge_entities_empty Let_def del: read_segments.simps)
  ultimately show ?thesis
    by (simp add: run_def Let_def)
qed

text \<open>
  C5. When the run has handed the batch \<open>ts\<close> to the annotator and that call fails, the
  run ends with the annotator's error, writes nothing, and the cache file keeps its
  content. Whenever a run does write the cache file, the annotator had succeeded on the
  batch, and the one dump holds the file's content of that moment together with all the
  new entries made from the returned documents.
\<close>

theorem annotation_failure_commits_nothing:
  assumes "pipe_calls (extract_all_entities_from_jsonl nlp_pipe input_file file0 file1) = [ts]"
  shows "(\<forall>e. nlp_pipe ts = Inl e \<longrightarrow>
            outcome (extract_all_entities_from_jsonl nlp_pipe input_file file0 file1) = Inl e \<and>
            written (extract_all_entities_from_jsonl nlp_pipe input_file file0 file1) = None \<and>
            cache_file_states (extract_all_entities_from_jsonl nlp_pipe input_file file0 file1) file1
              = [file1]) \<and>
         (\<forall>c. written (extract_all_entities_from_jsonl nlp_pipe input_file file0 file1) = Some c \<longrightarrow>
            (\<exists>docs cache all_text ce new cache1.
               nlp_pipe ts = Inr docs \<and>
               ts = texts_to_process (plan_segments cache all_text) \<and>
               scatter (plan_segments cache all_text) docs = Inr (ce, new) \<and>
               dom new = (\<lambda>j. get_cache_key (ts ! j)) ` {0..<length docs} \<and>
               load_cache file1 = Inr cache1 \<and>
               c = cache1 ++ new))"
proof (rule conjI; intro allI impI)
  fix e assume "nlp_pipe ts = Inl e"
  from annotator_failure [OF assms this]
  show "outcome (extract_all_entities_from_jsonl nlp_pipe input_file file0 file1) = Inl e \<and>
        written (extract_all_entities_from_jsonl nlp_pipe input_file file0 file1) = None \<and>
        cache_file_states (extract_all_entities_from_jsonl nlp_pipe input_file file0 file1) file1
          = [file1]"
    by (simp add: cache_file_states_def)
next
  fix c
  assume w: "written (extract_all_entities_from_jsonl nlp_pipe input_file file0 file1) = Some c"
  from written_SomeD [OF w] obtain cache all_text tm docs ce new cache1 where
    d: "nlp_pipe (texts_to_process (plan_segments cache all_text)) = Inr docs"
       "scatter (plan_segments cache all_text) docs = Inr (ce, new)"
       "load_cache file1 = Inr cache1" "c = cache1 ++ new"
       "extract_all_entities_from_jsonl nlp_pipe input_file file0 file1 =
             \<lparr>outcome = group_entities ce tm, written = Some c,
              pipe_calls = [texts_to_process (plan_segments cache all_text)]\<rparr>"
    by blast
  from d(5) assms have ts: "ts = texts_to_process (plan_segments cache all_text)"
    by simp
  from scatter_loop_Inr_length [OF d(2) [unfolded scatter_def]]
  have "length docs \<le> length (texts_to_process (plan_segments cache all_text))"
    by (simp add: plan_lengths)
  from scatter_plan [OF this] d(2)
  have "dom new = (\<lambda>j. get_cache_key (ts ! j)) ` {0..<length docs}"
    by (auto simp: ts)
  with d ts show "\<exists>docs cache all_text ce new cache1.
               nlp_pipe ts = Inr docs \<and>
               ts = texts_to_process (plan_segments cache all_text) \<and>
               scatter (plan_segments cache all_text) docs = Inr (ce, new) \<and>
               dom new = (\<lambda>j. get_cache_key (ts ! j)) ` {0..<length docs} \<and>
               load_cache file1 = Inr cache1 \<and>
               c = cache1 ++ new"
    by blast
qed

theorem annotation_failure_commits_nothing_witness:
  "pipe_calls (extract_all_entities_from_jsonl failing_pipe example_input Absent
                 (Pickled example_cache))
     = [[''hello world'', ''hello world'', ''goodbye'']] \<and>
   failing_pipe [''hello world'', ''hello world'', ''goodbye'']
     = Inl (AnnotatorError ''out of memory'') \<and>
   outcome (extract_all_entities_from_jsonl failing_pipe example_input Absent
              (Pickled example_cache)) = Inl (AnnotatorError ''out of memory'') \<and>
   written (extract_all_entities_from_jsonl failing_pipe example_input Absent
              (Pickled example_cache)) = None \<and>
   cache_file_states (extract_all_entities_from_jsonl failing_pipe example_input Absent
              (Pickled example_cache)) (Pickled example_cache) = [Pickled example_cache]"
proof -
  have h: "pipe_calls (extract_all_entities_from_jsonl failing_pipe example_input Absent
                 (Pickled example_cache))
     = [[''hello world'', ''hello world'', ''goodbye'']]"
    by (simp add: example_run_failing)
  have f: "failing_pipe [''hello world'', ''hello world'', ''goodbye'']
     = Inl (AnnotatorError ''out of memory'')"
    by (simp add: failing_pipe_def)
  from annotation_failure_commits_nothing [OF h] f h show ?thesis
    by blast
qed

text \<open>
  C8. A run that writes the cache file dumps \<open>c = cache1 ++ new\<close>, where \<open>cache1\<close> is
  what the file holds when it is read again just before the write (\<open>file1\<close>, not the
  snapshot \<open>file0\<close> used for planning) and \<open>new\<close> are the entries computed from the
  annotator's documents: every key of the file is still there, every new key is there
  with its new value, every other key keeps the file's value, and the file ends up
  holding \<open>c\<close>.
\<close>

theorem commit_merges_fresh_read:
  assumes "written (extract_all_entities_from_jsonl nlp_pipe input_file file0 file1) = Some c"
  shows "\<exists>cache1 new.
           load_cache file1 = Inr cache1 \<and>
           c = cache1 ++ new \<and>
           dom cache1 \<subseteq> dom c \<and>
           (\<forall>k\<in>dom new. c k = new k) \<and>
           (\<forall>k. k \<notin> dom new \<longrightarrow> c k = cache1 k) \<and>
           last (cache_file_states
                  (extract_all_entities_from_jsonl nlp_pipe input_file file0 file1) file1)
             = Pickled c \<and>
           (\<exists>cache0 all_text tm docs ce.
              load_cache file0 = Inr cache0 \<and>
              read_segments input_file ([], []) = Inr (all_text, tm) \<and>
              nlp_pipe (texts_to_process (plan_segments cache0 all_text)) = Inr docs \<and>
              scatter (plan_segments cache0 all_text) docs = Inr (ce, new) \<and>
              dom new = (\<lambda>j. get_cache_key (texts_to_process (plan_segments cache0 all_text) ! j))
                          ` {0..<length docs})"
proof -
  from written_SomeD [OF assms] obtain cache0 all_text tm docs ce new cache1 where
    d: "load_cache file0 = Inr cache0"
       "read_segments input_file ([], []) = Inr (all_text, tm)"
       "nlp_pipe (texts_to_process (plan_segments cache0 all_text)) = Inr docs"
       "scatter (plan_segments cache0 all_text) docs = Inr (ce, new)"
       "load_cache file1 = Inr cache1" "c = cache1 ++ new"
    by blast
  from scatter_loop_Inr_length [OF d(4) [unfolded scatter_def]]
  have "length docs \<le> length (texts_to_process (plan_segments cache0 all_text))"
    by (simp add: plan_lengths)
  from scatter_plan [OF this] d(4)
  have dm: "dom new = (\<lambda>j. get_cache_key (texts_to_process (plan_segments cache0 all_text) ! j))
                          ` {0..<length docs}"
    by auto
  have 1: "dom cache1 \<subseteq> dom c"
    using d(6) by auto
  have 2: "\<forall>k\<in>dom new. c k = new k"
    using d(6) by (auto simp: map_add_def)
  have 3: "\<forall>k. k \<notin> dom new \<longrightarrow> c k = cache1 k"
    using d(6) by (auto simp: map_add_def split: option.splits)
  have 4: "last (cache_file_states
                  (extract_all_entities_from_jsonl nlp_pipe input_file file0 file1) file1)
             = Pickled c"
    using assms by (simp add: cache_file_states_def write_states_def)
  show ?thesis
    by (intro exI conjI) (rule d 1 2 3 4 dm)+
qed

theorem commit_merges_fresh_read_witness:
  "written (extract_all_entities_from_jsonl example_pipe example_input Absent (Pickled other_cache))
     = Some (other_cache ++ example_entries) \<and>
   (\<exists>cache1 new.
           load_cache (Pickled other_cache) = Inr cache1 \<and>
           other_cache ++ example_entries = cache1 ++ new \<and>
           dom cache1 \<subseteq> dom (other_cache ++ example_entries) \<and>
           (\<forall>k\<in>dom new. (other_cache ++ example_entries) k = new k) \<and>
           (\<forall>k. k \<notin> dom new \<longrightarrow> (other_cache ++ example_entries) k = cache1 k) \<and>
           last (cache_file_states
                  (extract_all_entities_from_jsonl example_pipe example_input Absent
                     (Pickled other_cache)) (Pickled other_cache))
             = Pickled (other_cache ++ example_entries) \<and>
           (\<exists>cache0 all_text tm docs ce.
              load_cache Absent = Inr cache0 \<and>
              read_segments example_input ([], []) = Inr (all_text, tm) \<and>
              example_pipe (texts_to_process (plan_segments cache0 all_text)) = Inr docs \<and>
              scatter (plan_segments cache0 all_text) docs = Inr (ce, new) \<and>
              dom new = (\<lambda>j. get_cache_key (texts_to_process (plan_segments cache0 all_text) ! j))
                          ` {0..<length docs})) \<and>
   (other_cache ++ example_entries) ''0cc175b9c0f1b6a831c399e269772661''
     = Some [''ORG'' \<mapsto> {''Acme''}]"
proof -
  have l: "load_cache (Pickled other_cache) = Inr other_cache"
    by (simp add: load_cache_def)
  have w: "written (extract_all_entities_from_jsonl example_pipe example_input Absent
                      (Pickled other_cache))
     = Some (other_cache ++ example_entries)"
    by (simp add: example_run_reload [OF l] example_entries_def)
  have v: "(other_cache ++ example_entries) ''0cc175b9c0f1b6a831c399e269772661''
     = Some [''ORG'' \<mapsto> {''Acme''}]"
    by (simp add: other_cache_def example_entries_def map_add_def)
  note c = commit_merges_fresh_read [OF w]
  from w c v show ?thesis
    by (intro conjI)
qed

text \<open>
  C2, as the code has it. The cache file is rewritten in place, not through a temporary
  file: during the commit it goes from its old content through a truncated, unreadable
  state to the complete new pickle. A process killed before the file is opened for
  writing leaves the old content, and a restart over it submits the same misses again;
  a process killed between the truncation and the end of the dump leaves a file on which
  the next run aborts with the unpickling error.
\<close>

theorem cache_written_in_place:
  assumes "written (extract_all_entities_from_jsonl nlp_pipe input_file file0 file1) = Some c"
  shows "cache_file_states (extract_all_entities_from_jsonl nlp_pipe input_file file0 file1) file1
           = [file1, Unreadable, Pickled c] \<and>
         (\<exists>cache1 new. load_cache file1 = Inr cache1 \<and> c = cache1 ++ new) \<and>
         pipe_calls (extract_all_entities_from_jsonl nlp_pipe input_file file0 g)
           = pipe_calls (extract_all_entities_from_jsonl nlp_pipe input_file file0 file1) \<and>
         extract_all_entities_from_jsonl nlp_pipe input_file Unreadable g
           = \<lparr>outcome = Inl UnpicklingError, written = None, pipe_calls = []\<rparr>"
proof -
  from written_SomeD [OF assms]
  have "\<exists>cache1 new. load_cache file1 = Inr cache1 \<and> c = cache1 ++ new"
    by blast
  moreover have "extract_all_entities_from_jsonl nlp_pipe input_file Unreadable g
           = \<lparr>outcome = Inl UnpicklingError, written = None, pipe_calls = []\<rparr>"
    by (simp add: load_failure load_cache_def)
  ultimately show ?thesis
    using assms pipe_calls_file1 [of nlp_pipe input_file file0 g file1]
    by (simp add: cache_file_states_def write_states_def)
qed

theorem cache_written_in_place_witness:
  "written (extract_all_entities_from_jsonl example_pipe example_input
              (Pickled example_cache) (Pickled example_cache))
     = Some (example_cache ++ hello_entries) \<and>
   (cache_file_states (extract_all_entities_from_jsonl example_pipe example_input
              (Pickled example_cache) (Pickled example_cache)) (Pickled example_cache)
           = [Pickled example_cache, Unreadable, Pickled (example_cache ++ hello_entries)] \<and>
         (\<exists>cache1 new. load_cache (Pickled example_cache) = Inr cache1 \<and>
              example_cache ++ hello_entries = cache1 ++ new) \<and>
         pipe_calls (extract_all_entities_from_jsonl example_pipe example_input
              (Pickled example_cache) Unreadable)
           = pipe_calls (extract_all_entities_from_jsonl example_pipe example_input
              (Pickled example_cache) (Pickled example_cache)) \<and>
         extract_all_entities_from_jsonl example_pipe example_input Unreadable Unreadable
           = \<lparr>outcome = Inl UnpicklingError, written = None, pipe_calls = []\<rparr>)"
proof -
  have l: "load_cache (Pickled example_cache) = Inr example_cache"
    by (simp add: load_cache_def)
  have w: "written (extract_all_entities_from_jsonl example_pipe example_input
              (Pickled example_cache) (Pickled example_cache))
     = Some (example_cache ++ hello_entries)"
    by (simp add: example_run_warm [OF l] hello_entries_def)
  note c = cache_written_in_place [OF w, of Unreadable]
  from w c show ?thesis
    by (rule conjI)
qed

text \<open>
  On the scenario with a cache that knows "goodbye": the second state of the file during
  the commit is neither the old content nor the new one, and a run over it fails.
\<close>

theorem cache_written_in_place_counterexample:
  "cache_file_states (fst (run example_pipe example_input (Pickled example_cache)))
     (Pickled example_cache) ! 1 = Unreadable \<and>
   Unreadable \<noteq> Pickled example_cache \<and>
   Unreadable \<noteq> snd (run example_pipe example_input (Pickled example_cache)) \<and>
   outcome (fst (run example_pipe example_input Unreadable)) = Inl UnpicklingError"
proof -
  have l: "load_cache (Pickled example_cache) = Inr example_cache"
    by (simp add: load_cache_def)
  have "fst (run example_pipe example_input Unreadable) =
          \<lparr>outcome = Inl UnpicklingError, written = None, pipe_calls = []\<rparr>"
    by (simp add: run_eq load_failure load_cache_def)
  then show ?thesis
    by (simp add: run_eq example_run_warm [OF l] cache_file_states_def write_states_def)
qed

subsection \<open>Running twice\<close>

lemma md5_collide_a: "get_cache_key collide_a = ''faad49866e9498fc1719f5289e7a0269''"
  unfolding collide_a_def by code_simp

lemma md5_collide_b: "get_cache_key collide_b = ''faad49866e9498fc1719f5289e7a0269''"
  unfolding collide_b_def by code_simp

lemma collide_distinct: "collide_a \<noteq> collide_b"
  by (simp add: collide_a_def collide_b_def)

lemma strip_collide: "strip collide_a = collide_a" "strip collide_b = collide_b"
  by (simp_all add: collide_a_def collide_b_def strip_def whitespace_def)

lemma split_collide:
  "split_paragraphs collide_a = [collide_a]" "split_paragraphs collide_b = [collide_b]"
  by (simp_all add: collide_a_def collide_b_def split_paragraphs_def)

lemma collide_nonempty: "collide_a \<noteq> []" "collide_b \<noteq> []"
  by (simp_all add: collide_a_def collide_b_def)

lemma read_collide:
  "read_segments collide_input ([], []) =
     Inr ([collide_a, collide_b],
          [\<lparr>accession = ''A'', path = ''x''\<rparr>, \<lparr>accession = ''A'', path = ''x''\<rparr>])"
  by (simp add: collide_input_def segment_record_def read_line_def segment_meta_def
        strip_collide split_collide collide_nonempty)

lemma merge_entities_empty_right: "merge_entities t Map.empty = t"
  by (rule ext) (simp add: merge_entities_def)

lemma extract_collide:
  "extract_entities_from_doc (collide_nlp collide_a) = [''PERSON'' \<mapsto> {''Bob''}]"
  "extract_entities_from_doc (collide_nlp collide_b) = Map.empty"
  using collide_distinct
  by (auto simp: extract_entities_from_doc_def collide_nlp_def)

lemma collide_first_run:
  "run collide_pipe collide_input Absent =
     (\<lparr>outcome = Inr [(''A'', ''x'') \<mapsto> [''PERSON'' \<mapsto> {''Bob''}]],
       written = Some [''faad49866e9498fc1719f5289e7a0269'' \<mapsto> Map.empty],
       pipe_calls = [[collide_a, collide_b]]\<rparr>,
      Pickled [''faad49866e9498fc1719f5289e7a0269'' \<mapsto> Map.empty])"
  by (simp add: run_eq extract_all_entities_from_jsonl_def load_cache_def read_collide
        plan_segments_def collide_pipe_def scatter_def group_entities_def
        extract_collide md5_collide_a md5_collide_b
        merge_entities_empty merge_entities_empty_right Let_def)

lemma collide_second_run:
  "run collide_pipe collide_input (Pickled [''faad49866e9498fc1719f5289e7a0269'' \<mapsto> Map.empty]) =
     (\<lparr>outcome = Inr [(''A'', ''x'') \<mapsto> Map.empty], written = None, pipe_calls = []\<rparr>,
      Pickled [''faad49866e9498fc1719f5289e7a0269'' \<mapsto> Map.empty])"
  by (simp add: run_eq extract_all_entities_from_jsonl_def load_cache_def read_collide
        plan_segments_def group_entities_def md5_collide_a md5_collide_b
        merge_entities_empty Let_def)

text \<open>
  Two different ASCII texts with the same MD5 digest, in one document, with an annotator
  that finds Bob in the first only. The first run scatters both results by position but
  keeps one cache entry for the shared fingerprint, the one made last; the second run
  reads it back for both segments, and the aggregate of the document changes.
\<close>

theorem rerun_counterexample:
  "outcome (fst (run collide_pipe collide_input Absent)) =
     Inr [(''A'', ''x'') \<mapsto> [''PERSON'' \<mapsto> {''Bob''}]] \<and>
   outcome (fst (run collide_pipe collide_input (snd (run collide_pipe collide_input Absent)))) =
     Inr [(''A'', ''x'') \<mapsto> Map.empty] \<and>
   outcome (fst (run collide_pipe collide_input (snd (run collide_pipe collide_input Absent))))
     \<noteq> outcome (fst (run collide_pipe collide_input Absent))"
proof -
  have "[(''A'', ''x'') \<mapsto> (Map.empty :: entities)] \<noteq> [(''A'', ''x'') \<mapsto> [''PERSON'' \<mapsto> {''Bob''}]]"
  proof
    assume "[(''A'', ''x'') \<mapsto> (Map.empty :: entities)] = [(''A'', ''x'') \<mapsto> [''PERSON'' \<mapsto> {''Bob''}]]"
    then have "(Map.empty :: entities) = [''PERSON'' \<mapsto> {''Bob''}]"
      by (rule map_upd_eqD1)
    then have "(Map.empty :: entities) ''PERSON'' = [''PERSON'' \<mapsto> {''Bob''}] ''PERSON''"
      by (rule arg_cong)
    then show False by simp
  qed
  then show ?thesis
    by (simp add: collide_first_run collide_second_run)
qed

lemma first_run_with_misses:
  assumes l: "load_cache file = Inr cache"
    and r: "read_segments input_file ([], []) = Inr (all_text, tm)"
    and ne: "all_text \<noteq> []"
    and m: "texts_to_process (plan_segments cache all_text) \<noteq> []"
    and cons: "\<forall>a\<in>set all_text. \<forall>b\<in>set all_text.
                   get_cache_key a = get_cache_key b \<longrightarrow>
                   extract_entities_from_doc (nlp a) = extract_entities_from_doc (nlp b)"
  shows "\<exists>new.
           extract_all_entities_from_jsonl (\<lambda>ts. Inr (map nlp ts)) input_file file file =
             \<lparr>outcome = group_entities
                          (map (\<lambda>t. case cache (get_cache_key t) of
                                      Some v \<Rightarrow> Some v
                                    | None \<Rightarrow> Some (extract_entities_from_doc (nlp t))) all_text) tm,
              written = Some (cache ++ new),
              pipe_calls = [texts_to_process (plan_segments cache all_text)]\<rparr> \<and>
           (\<forall>t\<in>set all_text. cache (get_cache_key t) = None \<longrightarrow>
                new (get_cache_key t) = Some (extract_entities_from_doc (nlp t))) \<and>
           dom new = get_cache_key ` {t \<in> set all_text. cache (get_cache_key t) = None}"
proof -
  from scatter_per_text [OF cons, of cache] obtain new where
    sc: "scatter (plan_segments cache all_text)
           (map nlp (texts_to_process (plan_segments cache all_text)))
         = Inr (map (\<lambda>t. case cache (get_cache_key t) of
                                  Some v \<Rightarrow> Some v
                                | None \<Rightarrow> Some (extract_entities_from_doc (nlp t))) all_text,
                new)"
    and v: "\<forall>t\<in>set all_text. cache (get_cache_key t) = None \<longrightarrow>
                new (get_cache_key t) = Some (extract_entities_from_doc (nlp t))"
    and d: "dom new = get_cache_key ` {t \<in> set all_text. cache (get_cache_key t) = None}"
    by blast
  have "extract_all_entities_from_jsonl (\<lambda>ts. Inr (map nlp ts)) input_file file file =
             \<lparr>outcome = group_entities
                          (map (\<lambda>t. case cache (get_cache_key t) of
                                      Some v \<Rightarrow> Some v
                                    | None \<Rightarrow> Some (extract_entities_from_doc (nlp t))) all_text) tm,
              written = Some (cache ++ new),
              pipe_calls = [texts_to_process (plan_segments cache all_text)]\<rparr>"
    using l r ne m sc by (simp add: extract_all_entities_from_jsonl_def)
  with v d show ?thesis
    by blast
qed

lemma rerun_after_misses:
  assumes r: "read_segments input_file ([], []) = Inr (all_text, tm)"
    and ne: "all_text \<noteq> []"
    and v: "\<forall>t\<in>set all_text. cache (get_cache_key t) = None \<longrightarrow>
                new (get_cache_key t) = Some (extract_entities_from_doc (nlp t))"
    and d: "dom new = get_cache_key ` {t \<in> set all_text. cache (get_cache_key t) = None}"
  shows "extract_all_entities_from_jsonl nlp_pipe input_file
           (Pickled (cache ++ new)) (Pickled (cache ++ new)) =
             \<lparr>outcome = group_entities
                          (map (\<lambda>t. case cache (get_cache_key t) of
                                      Some v \<Rightarrow> Some v
                                    | None \<Rightarrow> Some (extract_entities_from_doc (nlp t))) all_text) tm,
              written = None, pipe_calls = []\<rparr>"
proof -
  have val: "(cache ++ new) (get_cache_key t) =
               (case cache (get_cache_key t) of
                  Some v \<Rightarrow> Some v
                | None \<Rightarrow> Some (extract_entities_from_doc (nlp t)))"
    if t: "t \<in> set all_text" for t
  proof (cases "cache (get_cache_key t)")
    case None
    with v t show ?thesis
      by (simp add: map_add_def)
  next
    case (Some x)
    have "get_cache_key t \<notin> dom new"
    proof
      assume "get_cache_key t \<in> dom new"
      with d obtain t' where "cache (get_cache_key t') = None" "get_cache_key t = get_cache_key t'"
        by auto
      with Some show False by simp
    qed
    then have "new (get_cache_key t) = None"
      by auto
    with Some show ?thesis
      by (simp add: map_add_def)
  qed
  have hits: "\<forall>t\<in>set all_text. (cache ++ new) (get_cache_key t) \<noteq> None"
    using val by (auto split: option.splits)
  have "map (\<lambda>t. (cache ++ new) (get_cache_key t)) all_text
          = map (\<lambda>t. case cache (get_cache_key t) of
                        Some v \<Rightarrow> Some v
                      | None \<Rightarrow> Some (extract_entities_from_doc (nlp t))) all_text"
    using val by (intro map_cong) auto
  with all_hits_skip_commit [OF _ r ne hits, of "Pickled (cache ++ new)" nlp_pipe "Pickled (cache ++ new)"]
  show ?thesis
    by (simp add: load_cache_def)
qed

text \<open>
  C9, as the code has it. With an annotator that treats every text on its own, and a batch
  in which no two different texts have the same MD5 fingerprint, running the pipeline a
  second time over the same input, starting from the cache file the first run left,
  leaves that cache file as it is, ends with the same outcome (the same per-document
  aggregates, or the same error), and makes no annotator call.
\<close>

theorem rerun_is_idempotent:
  assumes per_text: "\<forall>ts. nlp_pipe ts = Inr (map nlp ts)"
    and no_collision: "\<forall>all_text tm. read_segments input_file ([], []) = Inr (all_text, tm) \<longrightarrow>
                         inj_on get_cache_key (set all_text)"
  shows "snd (run nlp_pipe input_file (snd (run nlp_pipe input_file file)))
           = snd (run nlp_pipe input_file file) \<and>
         outcome (fst (run nlp_pipe input_file (snd (run nlp_pipe input_file file))))
           = outcome (fst (run nlp_pipe input_file file)) \<and>
         pipe_calls (fst (run nlp_pipe input_file (snd (run nlp_pipe input_file file)))) = []"
proof -
  from per_text have pipe: "nlp_pipe = (\<lambda>ts. Inr (map nlp ts))"
    by (intro ext) simp
  show ?thesis
  proof (cases "load_cache file")
    case (Inl e)
    then show ?thesis
      by (simp add: run_eq load_failure)
  next
    case (Inr cache)
    note l = this
    show ?thesis
    proof (cases "read_segments input_file ([], [])")
      case (Inl e)
      with l show ?thesis
        by (simp add: run_eq read_failure)
    next
      case (Inr segs)
      obtain all_text tm where segs: "segs = (all_text, tm)"
        by (cases segs)
      note r = Inr [unfolded segs]
      show ?thesis
      proof (cases "all_text = []")
        case True
        with l r show ?thesis
          by (simp add: run_eq empty_batch)
      next
        case False
        note ne = this
        show ?thesis
        proof (cases "texts_to_process (plan_segments cache all_text) = []")
          case True
          then have "\<forall>t\<in>set all_text. cache (get_cache_key t) \<noteq> None"
            by (simp add: plan_texts filter_empty_conv)
          from all_hits_skip_commit [OF l r ne this]
          show ?thesis
            by (simp add: run_eq)
        next
          case False
          from no_collision r have "inj_on get_cache_key (set all_text)"
            by blast
          then have cons: "\<forall>a\<in>set all_text. \<forall>b\<in>set all_text.
                   get_cache_key a = get_cache_key b \<longrightarrow>
                   extract_entities_from_doc (nlp a) = extract_entities_from_doc (nlp b)"
            by (auto dest: inj_onD)
          from first_run_with_misses [OF l r ne False cons] obtain new where
            first: "extract_all_entities_from_jsonl nlp_pipe input_file file file =
             \<lparr>outcome = group_entities
                          (map (\<lambda>t. case cache (get_cache_key t) of
                                      Some v \<Rightarrow> Some v
                                    | None \<Rightarrow> Some (extract_entities_from_doc (nlp t))) all_text) tm,
              written = Some (cache ++ new),
              pipe_calls = [texts_to_process (plan_segments cache all_text)]\<rparr>"
            and v: "\<forall>t\<in>set all_text. cache (get_cache_key t) = None \<longrightarrow>
                new (get_cache_key t) = Some (extract_entities_from_doc (nlp t))"
            and d: "dom new = get_cache_key ` {t \<in> set all_text. cache (get_cache_key t) = None}"
            unfolding pipe by blast
          from rerun_after_misses [OF r ne v d, of nlp_pipe] first
          show ?thesis
            by (simp add: run_eq)
        qed
      qed
    qed
  qed
qed

theorem rerun_is_idempotent_witness:
  "read_segments example_input ([], []) =
     Inr ([''hello world'', ''hello world'', ''goodbye''],
          [\<lparr>accession = ''A'', path = ''x''\<rparr>, \<lparr>accession = ''A'', path = ''y''\<rparr>,
           \<lparr>accession = ''B'', path = ''z''\<rparr>]) \<and>
   get_cache_key ''hello world'' \<noteq> get_cache_key ''goodbye'' \<and>
   example_pipe [''hello world'', ''hello world'', ''goodbye'']
     = Inr (map example_nlp [''hello world'', ''hello world'', ''goodbye'']) \<and>
   snd (run example_pipe example_input (snd (run example_pipe example_input Absent)))
     = snd (run example_pipe example_input Absent) \<and>
   outcome (fst (run example_pipe example_input (snd (run example_pipe example_input Absent))))
     = outcome (fst (run example_pipe example_input Absent)) \<and>
   pipe_calls (fst (run example_pipe example_input
                      (snd (run example_pipe example_input Absent)))) = []"
proof -
  have p: "\<forall>ts. example_pipe ts = Inr (map example_nlp ts)"
    by (simp add: example_pipe_def)
  have k: "get_cache_key ''hello world'' \<noteq> get_cache_key ''goodbye''"
    by (simp add: md5_hello_world md5_goodbye)
  have i: "\<forall>all_text tm. read_segments example_input ([], []) = Inr (all_text, tm) \<longrightarrow>
        inj_on get_cache_key (set all_text)"
    using k by (auto simp: read_example)
  note c = rerun_is_idempotent [OF p i, of Absent]
  from read_example k p c show ?thesis
    by blast
qed

end
